theory Spec2Isabelle
  imports Main "HOL-Library.Sublist" "HOL-Library.Char_ord" "HOL-Library.List_Lexorder"
begin

section \<open>JavaScript values, thrown values and results\<close>

text \<open>
  What a \<^verbatim>\<open>throw\<close> carries: an \<^verbatim>\<open>Error\<close> instance with its message, or a value that is
  not an \<^verbatim>\<open>Error\<close>. A computation that may throw and that changes a store returns a pair:
  \<open>Inl e\<close> for the throw or \<open>Inr v\<close> for the value, and the store as it was left.
\<close>

datatype thrown = Error string | NonError

text \<open>\<^verbatim>\<open>error instanceof Error ? error.message : 'Unknown error'\<close>\<close>

fun error_message :: "thrown \<Rightarrow> string" where
  "error_message (Error m) = m"
| "error_message NonError = ''Unknown error''"

fun then_do :: "('e + 'a) \<times> 'st \<Rightarrow> ('a \<Rightarrow> 'st \<Rightarrow> ('e + 'b) \<times> 'st) \<Rightarrow> ('e + 'b) \<times> 'st" where
  "then_do (Inl e, st) f = (Inl e, st)"
| "then_do (Inr a, st) f = f a st"

text \<open>\<^verbatim>\<open>try { ... } catch (error) { logger.error(...) }\<close>: the throw is logged and dropped.\<close>

fun catch_log :: "(thrown + unit) \<times> 'st \<Rightarrow> (thrown + unit) \<times> 'st" where
  "catch_log (Inl e, st) = (Inr (), st)"
| "catch_log (Inr u, st) = (Inr u, st)"

text \<open>
  Primitive values and, for arrays and objects, what \<^verbatim>\<open>String(value)\<close> yields. Numbers are
  the integers. An object is its keys in \<^verbatim>\<open>Object.keys\<close> order with their values: the
  order in which the keys were set, for keys that are not array indices (the records of
  the collections have none).
\<close>

datatype jsval = JUndefined | JNull | JBool bool | JNum int | JStr string | JObject string

type_synonym jsobj = "(string \<times> jsval) list"

definition digit :: "nat \<Rightarrow> char" where
  "digit n = ''0123456789'' ! n"

fun show_nat :: "nat \<Rightarrow> string" where
  "show_nat n = (if n < 10 then [digit n] else show_nat (n div 10) @ [digit (n mod 10)])"

declare show_nat.simps [simp del]

definition show_int :: "int \<Rightarrow> string" where
  "show_int i = (if i < 0 then ''-'' @ show_nat (nat (- i)) else show_nat (nat i))"

section \<open>The data model of the backup service\<close>

type_synonym path = "string list"

text \<open>
  A path is the list of its segments; \<^verbatim>\<open>path.join(a, b)\<close> is \<open>a @ [b]\<close>.
  A timestamp is a \<^verbatim>\<open>Date\<close> object while the record lives in the process that made it;
  \<^verbatim>\<open>JSON.stringify\<close> writes it as an ISO string and \<^verbatim>\<open>JSON.parse\<close> (called without a
  reviver) reads that string back as a string. Both carry the instant in milliseconds.
  The fields \<^verbatim>\<open>id\<close>, \<^verbatim>\<open>type\<close>, \<^verbatim>\<open>size\<close> and \<^verbatim>\<open>path\<close> of a record are \<open>id_m\<close>, \<open>type_m\<close>,
  \<open>size_m\<close> and \<open>path_m\<close> here, and \<^verbatim>\<open>fields\<close> of the export options is \<open>fields_o\<close>.
\<close>

datatype js_time = DateObj int | DateString int

datatype backup_type = TFull | TDatabase | TFiles | TExport

datatype backup_status = Pending | Completed | Failed

record BackupMetadata =
  id_m :: string
  timestamp :: js_time
  type_m :: backup_type
  size_m :: nat
  path_m :: path
  checksum :: string
  collections :: "string list option"
  status :: backup_status
  error :: "string option"

record BackupOptions =
  includeUploads :: "bool option"
  includeDatabase :: "bool option"
  includeLogs :: "bool option"
  compression :: "bool option"

section \<open>The file system\<close>

text \<open>
  The backup root is an association list from paths to nodes, read with \<open>map_of\<close>. An
  archive holds the entries packed into it, by their paths relative to the packed
  directory. The uploads and logs directories lie outside the backup root and are only
  read: they are trees.
\<close>

datatype node = Dir | File string | Archive "(path \<times> node) list"

type_synonym fs = "(path \<times> node) list"

datatype tree = FileT string | DirT "(string \<times> tree) list"

record database =
  products :: "jsobj list"
  sales :: "jsobj list"
  users :: "jsobj list"
  suppliers :: "jsobj list"
  purchaseOrders :: "jsobj list"

text \<open>
  The surroundings of one call: the clock, the in-memory collections, the directories
  outside the backup root, and for every file-system call whether it fails for a reason
  the disk does not show (an I/O error, a permission, a full disk). The failures the
  disk does show (a missing path, a file where a directory is needed, a directory where
  a file is needed) are read off the disk. A write that fails after its file was opened
  has truncated it: \<open>torn_write\<close> tells, for a failing write, whether the file was
  opened and what it holds then.
\<close>

record env =
  cwd :: path
  date_now :: int
  new_date :: int
  db :: database
  uploads_dir :: "(string \<times> tree) list option"
  logs_dir :: "(string \<times> tree) list option"
  fault_mkdir :: "path \<Rightarrow> thrown option"
  fault_writeFile :: "path \<Rightarrow> thrown option"
  fault_readFile :: "path \<Rightarrow> thrown option"
  fault_copyFile :: "path \<Rightarrow> thrown option"
  fault_readdir :: "path \<Rightarrow> thrown option"
  fault_access :: "path \<Rightarrow> thrown option"
  fault_rm :: "path \<Rightarrow> thrown option"
  fault_stat :: "path \<Rightarrow> thrown option"
  fault_archive :: "path \<Rightarrow> thrown option"
  fault_checksum :: "path \<Rightarrow> thrown option"
  torn_write :: "path \<Rightarrow> string option"
  stringify :: "jsobj list \<Rightarrow> thrown + string"
  stat_size :: "node \<Rightarrow> nat"
  sha256_hex :: "node \<Rightarrow> string"

definition put :: "path \<Rightarrow> node \<Rightarrow> fs \<Rightarrow> fs" where
  "put p n files = (p, n) # filter (\<lambda>(q, _). q \<noteq> p) files"

definition remove_tree :: "path \<Rightarrow> fs \<Rightarrow> fs" where
  "remove_tree p files = filter (\<lambda>(q, _). \<not> prefix p q) files"

text \<open>The root is a directory; a file is a node that is not a directory.\<close>

definition is_dir :: "fs \<Rightarrow> path \<Rightarrow> bool" where
  "is_dir files p = (p = [] \<or> map_of files p = Some Dir)"

definition is_file :: "fs \<Rightarrow> path \<Rightarrow> bool" where
  "is_file files p = (case map_of files p of None \<Rightarrow> False | Some Dir \<Rightarrow> False | Some _ \<Rightarrow> True)"

text \<open>
  \<^verbatim>\<open>fs.mkdir(p, { recursive: true })\<close>: every missing ancestor and \<open>p\<close> become directories;
  a file at \<open>p\<close> (\<^verbatim>\<open>EEXIST\<close>) or at an ancestor (\<^verbatim>\<open>ENOTDIR\<close>) is an error.
\<close>

definition mkdir :: "env \<Rightarrow> path \<Rightarrow> fs \<Rightarrow> (thrown + unit) \<times> fs" where
  "mkdir e p files =
     (if list_ex (is_file files) (tl (prefixes p))
      then (Inl (Error (if is_file files p then ''EEXIST'' else ''ENOTDIR'')), files)
      else
        case fault_mkdir e p of
          Some err \<Rightarrow> (Inl err, files)
        | None \<Rightarrow>
            (Inr (), files @ map (\<lambda>q. (q, Dir))
                               (filter (\<lambda>q. map_of files q = None) (tl (prefixes p)))))"

text \<open>
  Opening a file for writing (flag \<^verbatim>\<open>w\<close>): a directory at the path (\<^verbatim>\<open>EISDIR\<close>) and a
  parent that is missing (\<^verbatim>\<open>ENOENT\<close>) or a file (\<^verbatim>\<open>ENOTDIR\<close>) are errors, and nothing is
  touched.
\<close>

definition open_error :: "fs \<Rightarrow> path \<Rightarrow> thrown option" where
  "open_error files p =
     (if is_dir files p then Some (Error ''EISDIR'')
      else if is_dir files (butlast p) then None
      else if is_file files (butlast p) then Some (Error ''ENOTDIR'')
      else Some (Error ''ENOENT''))"

text \<open>
  A write of the whole file, \<^verbatim>\<open>fs.writeFile\<close> and \<^verbatim>\<open>fs.copyFile\<close>: when it fails after the
  file was opened, the file holds what was written until then.
\<close>

definition write_all :: "thrown option \<Rightarrow> string option \<Rightarrow> path \<Rightarrow> string \<Rightarrow> fs \<Rightarrow> (thrown + unit) \<times> fs" where
  "write_all fault torn p txt files =
     (case open_error files p of
        Some err \<Rightarrow> (Inl err, files)
      | None \<Rightarrow>
          (case fault of
             Some err \<Rightarrow>
               (Inl err, case torn of None \<Rightarrow> files | Some part \<Rightarrow> put p (File part) files)
           | None \<Rightarrow> (Inr (), put p (File txt) files)))"

definition writeFile :: "env \<Rightarrow> path \<Rightarrow> string \<Rightarrow> fs \<Rightarrow> (thrown + unit) \<times> fs" where
  "writeFile e p txt files = write_all (fault_writeFile e p) (torn_write e p) p txt files"

definition copyFile :: "env \<Rightarrow> string \<Rightarrow> path \<Rightarrow> fs \<Rightarrow> (thrown + unit) \<times> fs" where
  "copyFile e txt dest files = write_all (fault_copyFile e dest) (torn_write e dest) dest txt files"

text \<open>\<^verbatim>\<open>fs.rm(p, { recursive: true })\<close>: a missing path is an error.\<close>

definition rm :: "env \<Rightarrow> path \<Rightarrow> fs \<Rightarrow> (thrown + unit) \<times> fs" where
  "rm e p files =
     (case fault_rm e p of
        Some err \<Rightarrow> (Inl err, files)
      | None \<Rightarrow>
          (case map_of files p of
             None \<Rightarrow> (Inl (Error ''ENOENT''), files)
           | Some _ \<Rightarrow> (Inr (), remove_tree p files)))"

text \<open>\<^verbatim>\<open>fs.rm(p, { recursive: true, force: true })\<close>: a missing path is not an error.\<close>

definition rm_force :: "env \<Rightarrow> path \<Rightarrow> fs \<Rightarrow> (thrown + unit) \<times> fs" where
  "rm_force e p files =
     (case fault_rm e p of
        Some err \<Rightarrow> (Inl err, files)
      | None \<Rightarrow> (Inr (), remove_tree p files))"

definition stat :: "env \<Rightarrow> path \<Rightarrow> fs \<Rightarrow> (thrown + nat) \<times> fs" where
  "stat e p files =
     (case fault_stat e p of
        Some err \<Rightarrow> (Inl err, files)
      | None \<Rightarrow>
          (case map_of files p of
             None \<Rightarrow> (Inl (Error ''ENOENT''), files)
           | Some n \<Rightarrow> (Inr (stat_size e n), files)))"

text \<open>
  \<^verbatim>\<open>calculateChecksum\<close>: the file is streamed through the SHA-256 hash. A read stream
  opened on a directory fails when it is read (\<^verbatim>\<open>EISDIR\<close>).
\<close>

definition calculateChecksum :: "env \<Rightarrow> path \<Rightarrow> fs \<Rightarrow> (thrown + string) \<times> fs" where
  "calculateChecksum e p files =
     (case fault_checksum e p of
        Some err \<Rightarrow> (Inl err, files)
      | None \<Rightarrow>
          (case map_of files p of
             None \<Rightarrow> (Inl (Error ''ENOENT''), files)
           | Some Dir \<Rightarrow> (Inl (Error ''EISDIR''), files)
           | Some n \<Rightarrow> (Inr (sha256_hex e n), files)))"

text \<open>The entries below a directory, by their paths relative to it.\<close>

definition entries_below :: "path \<Rightarrow> fs \<Rightarrow> (path \<times> node) list" where
  "entries_below src files =
     map (\<lambda>(q, n). (drop (length src) q, n)) (filter (\<lambda>(q, _). strict_prefix src q) files)"

text \<open>
  \<^verbatim>\<open>createArchive\<close>, for a call whose output stream works (the archive's path, named
  after the clock, holds no directory, and the stream meets no error):
  \<^verbatim>\<open>archive.directory(sourcePath, false)\<close> packs the contents of the source directory and
  the promise resolves to the archive's path when the output closes, or the archiver
  fails and the promise rejects with its error. The output stream has made the archive
  file before the archiver packs anything, so a failed archive leaves the file with
  what was written until then. An error of the output stream itself has no listener:
  the promise is then never settled, which is \<open>stalled_backup\<close> below.
\<close>

definition createArchive :: "env \<Rightarrow> path \<Rightarrow> path \<Rightarrow> string \<Rightarrow> fs \<Rightarrow> (thrown + path) \<times> fs" where
  "createArchive e backupDir sourcePath archiveName files =
     (let archivePath = backupDir @ [archiveName] in
      case fault_archive e archivePath of
        Some err \<Rightarrow>
          (Inl err,
           put archivePath
             (File (case torn_write e archivePath of None \<Rightarrow> [] | Some part \<Rightarrow> part)) files)
      | None \<Rightarrow> (Inr archivePath, put archivePath (Archive (entries_below sourcePath files)) files))"

text \<open>
  \<^verbatim>\<open>copyDirectory\<close>: make the destination, list the source, and copy every entry in
  turn, a directory by the recursive call; the first failure ends the copy.
\<close>

fun copyDirectory :: "env \<Rightarrow> (string \<times> tree) list \<Rightarrow> path \<Rightarrow> path \<Rightarrow> fs \<Rightarrow> (thrown + unit) \<times> fs"
  and copyEntries :: "env \<Rightarrow> (string \<times> tree) list \<Rightarrow> path \<Rightarrow> path \<Rightarrow> fs \<Rightarrow> (thrown + unit) \<times> fs"
where
  "copyDirectory e es src dest files =
     then_do (mkdir e dest files) (\<lambda>_ files1.
       (case fault_readdir e src of
          Some err \<Rightarrow> (Inl err, files1)
        | None \<Rightarrow> copyEntries e es src dest files1))"
| "copyEntries e [] src dest files = (Inr (), files)"
| "copyEntries e ((name, DirT sub) # es) src dest files =
     then_do (copyDirectory e sub (src @ [name]) (dest @ [name]) files)
       (\<lambda>_ files1. copyEntries e es src dest files1)"
| "copyEntries e ((name, FileT txt) # es) src dest files =
     then_do (copyFile e txt (dest @ [name]) files)
       (\<lambda>_ files1. copyEntries e es src dest files1)"

text \<open>What a path holds after a step that only makes directories there: the same, or a new directory.\<close>

definition grown :: "node option \<Rightarrow> node option \<Rightarrow> bool" where
  "grown before after = (after = before \<or> (before = None \<and> after = Some Dir))"

section \<open>The backup service\<close>

text \<open>
  The fields of \<^verbatim>\<open>BackupService\<close>, the backup root on disk, and the history document
  \<^verbatim>\<open>backup-history.json\<close> (absent or not parsing, or the records as \<^verbatim>\<open>JSON.parse\<close> reads
  them back).
  A method runs from its call to its return with no other method in between; the calls
  of the logger change nothing and are left out; the two \<^verbatim>\<open>cron\<close> schedules only call
  \<^verbatim>\<open>createFullBackup\<close> and \<^verbatim>\<open>cleanupOldBackups\<close>.
\<close>

record state =
  backupDir :: path
  maxBackups :: nat
  isBackupRunning :: bool
  backupHistory :: "BackupMetadata list"
  disk :: fs
  historyFile :: "BackupMetadata list option"

text \<open>A record after \<^verbatim>\<open>JSON.stringify\<close> and \<^verbatim>\<open>JSON.parse\<close>: the timestamp is a string.\<close>

fun json_time :: "js_time \<Rightarrow> js_time" where
  "json_time (DateObj t) = DateString t"
| "json_time (DateString t) = DateString t"

definition json_roundtrip :: "BackupMetadata \<Rightarrow> BackupMetadata" where
  "json_roundtrip b = b\<lparr>timestamp := json_time (timestamp b)\<rparr>"

definition loadBackupHistory :: "env \<Rightarrow> state \<Rightarrow> state" where
  "loadBackupHistory e s =
     (case fault_readFile e (backupDir s @ [''backup-history.json'']) of
        Some err \<Rightarrow> s\<lparr>backupHistory := []\<rparr>
      | None \<Rightarrow>
          (case historyFile s of
             None \<Rightarrow> s\<lparr>backupHistory := []\<rparr>
           | Some doc \<Rightarrow> s\<lparr>backupHistory := doc\<rparr>))"

text \<open>
  \<^verbatim>\<open>saveBackupHistory\<close>: the whole document is written again with \<^verbatim>\<open>fs.writeFile\<close>, and
  the \<^verbatim>\<open>catch\<close> logs a failure. A write that cannot open the document (the backup root
  is not a directory, or a directory has the document's name) leaves it as it was; a
  write that fails after the document was opened has truncated it, and what is left
  (nothing, or the beginning of the text) does not parse.
\<close>

definition saveBackupHistory :: "env \<Rightarrow> state \<Rightarrow> state" where
  "saveBackupHistory e s =
     (case open_error (disk s) (backupDir s @ [''backup-history.json'']) of
        Some err \<Rightarrow> s
      | None \<Rightarrow>
          (case fault_writeFile e (backupDir s @ [''backup-history.json'']) of
             Some err \<Rightarrow>
               (case torn_write e (backupDir s @ [''backup-history.json'']) of
                  None \<Rightarrow> s
                | Some part \<Rightarrow> s\<lparr>historyFile := None\<rparr>)
           | None \<Rightarrow> s\<lparr>historyFile := Some (map json_roundtrip (backupHistory s))\<rparr>))"

text \<open>
  The constructor: the fields' initial values, the directories of the backup root (the
  constructor does not wait for them, nor look at their outcome), then the history is
  loaded. The disk and the history document are what the previous process left.
\<close>

definition initializeBackupDirectory :: "env \<Rightarrow> state \<Rightarrow> (thrown + unit) \<times> state" where
  "initializeBackupDirectory e s =
     (let r = then_do (mkdir e (backupDir s) (disk s)) (\<lambda>_ files1.
              then_do (mkdir e (backupDir s @ [''database'']) files1) (\<lambda>_ files2.
              then_do (mkdir e (backupDir s @ [''files'']) files2) (\<lambda>_ files3.
                mkdir e (backupDir s @ [''exports'']) files3)))
      in (fst r, s\<lparr>disk := snd r\<rparr>))"

definition new_BackupService :: "env \<Rightarrow> fs \<Rightarrow> BackupMetadata list option \<Rightarrow> state" where
  "new_BackupService e files doc =
     loadBackupHistory e
       (snd (initializeBackupDirectory e
          \<lparr>backupDir = cwd e @ [''backups''], maxBackups = 30, isBackupRunning = False,
           backupHistory = [], disk = files, historyFile = doc\<rparr>))"

text \<open>\<^verbatim>\<open>exportCollectionsAsJSON\<close>: each collection in its own \<^verbatim>\<open>try\<close>.\<close>

definition collections_list :: "env \<Rightarrow> (string \<times> jsobj list) list" where
  "collections_list e =
     [(''products'', products (db e)), (''sales'', sales (db e)), (''users'', users (db e)),
      (''suppliers'', suppliers (db e)), (''purchaseorders'', purchaseOrders (db e))]"

definition exportCollection :: "env \<Rightarrow> path \<Rightarrow> string \<times> jsobj list \<Rightarrow> fs \<Rightarrow> (thrown + unit) \<times> fs" where
  "exportCollection e backupPath c files =
     (case stringify e (snd c) of
        Inl err \<Rightarrow> (Inl err, files)
      | Inr txt \<Rightarrow> writeFile e (backupPath @ [fst c @ ''.json'']) txt files)"

fun exportCollections :: "env \<Rightarrow> path \<Rightarrow> (string \<times> jsobj list) list \<Rightarrow> fs \<Rightarrow> (thrown + unit) \<times> fs" where
  "exportCollections e backupPath [] files = (Inr (), files)"
| "exportCollections e backupPath (c # cs) files =
     then_do (catch_log (exportCollection e backupPath c files))
       (\<lambda>_ files1. exportCollections e backupPath cs files1)"

definition exportCollectionsAsJSON :: "env \<Rightarrow> path \<Rightarrow> fs \<Rightarrow> (thrown + unit) \<times> fs" where
  "exportCollectionsAsJSON e backupPath files =
     exportCollections e backupPath (collections_list e) files"

text \<open>\<^verbatim>\<open>backupDatabase\<close>: its \<^verbatim>\<open>catch\<close> logs and throws the error again.\<close>

definition backupDatabase :: "env \<Rightarrow> path \<Rightarrow> fs \<Rightarrow> (thrown + unit) \<times> fs" where
  "backupDatabase e backupPath files =
     then_do (mkdir e (backupPath @ [''database'']) files)
       (\<lambda>_ files1. exportCollectionsAsJSON e (backupPath @ [''database'']) files1)"

text \<open>
  \<^verbatim>\<open>fs.access\<close> on a directory outside the backup root, then the copy; the inner
  \<^verbatim>\<open>catch\<close> of \<^verbatim>\<open>backupFiles\<close> and \<^verbatim>\<open>backupLogs\<close> warns and goes on.
\<close>

definition access_and_copy ::
  "env \<Rightarrow> (string \<times> tree) list option \<Rightarrow> path \<Rightarrow> path \<Rightarrow> fs \<Rightarrow> (thrown + unit) \<times> fs" where
  "access_and_copy e source src dest files =
     (case fault_access e src of
        Some err \<Rightarrow> (Inl err, files)
      | None \<Rightarrow>
          (case source of
             None \<Rightarrow> (Inl (Error ''ENOENT''), files)
           | Some es \<Rightarrow> copyDirectory e es src dest files))"

definition backupFiles :: "env \<Rightarrow> path \<Rightarrow> fs \<Rightarrow> (thrown + unit) \<times> fs" where
  "backupFiles e backupPath files =
     then_do (mkdir e (backupPath @ [''files'']) files)
       (\<lambda>_ files1. catch_log
          (access_and_copy e (uploads_dir e) (cwd e @ [''public'', ''uploads''])
             (backupPath @ [''files'', ''uploads'']) files1))"

definition backupLogs :: "env \<Rightarrow> path \<Rightarrow> fs \<Rightarrow> (thrown + unit) \<times> fs" where
  "backupLogs e backupPath files =
     then_do (mkdir e (backupPath @ [''logs'']) files)
       (\<lambda>_ files1. catch_log
          (access_and_copy e (logs_dir e) (cwd e @ [''logs'']) (backupPath @ [''logs'']) files1))"

text \<open>The body of the \<^verbatim>\<open>try\<close> of \<^verbatim>\<open>createFullBackup\<close>, up to the checksum.\<close>

definition archive_step :: "BackupOptions \<Rightarrow> env \<Rightarrow> path \<Rightarrow> string \<Rightarrow> fs \<Rightarrow> (thrown + path) \<times> fs" where
  "archive_step options e bdir backupId files =
     (if compression options \<noteq> Some False
      then then_do (createArchive e bdir (bdir @ [backupId]) (backupId @ ''.tar.gz'') files)
             (\<lambda>finalPath files1.
                then_do (rm e (bdir @ [backupId]) files1) (\<lambda>_ files2. (Inr finalPath, files2)))
      else (Inr (bdir @ [backupId]), files))"

definition snapshot_steps ::
  "BackupOptions \<Rightarrow> env \<Rightarrow> path \<Rightarrow> string \<Rightarrow> fs \<Rightarrow> (thrown + unit) \<times> fs" where
  "snapshot_steps options e bdir backupId files =
     then_do (mkdir e (bdir @ [backupId]) files) (\<lambda>_ files1.
     then_do (if includeDatabase options \<noteq> Some False
              then backupDatabase e (bdir @ [backupId]) files1 else (Inr (), files1)) (\<lambda>_ files2.
     then_do (if includeUploads options \<noteq> Some False
              then backupFiles e (bdir @ [backupId]) files2 else (Inr (), files2)) (\<lambda>_ files3.
       if includeLogs options = Some True
       then backupLogs e (bdir @ [backupId]) files3 else (Inr (), files3))))"

definition backup_steps ::
  "BackupOptions \<Rightarrow> env \<Rightarrow> path \<Rightarrow> string \<Rightarrow> fs \<Rightarrow> (thrown + path \<times> nat \<times> string) \<times> fs" where
  "backup_steps options e bdir backupId files =
     then_do (snapshot_steps options e bdir backupId files) (\<lambda>_ files4.
     then_do (archive_step options e bdir backupId files4) (\<lambda>finalPath files5.
     then_do (stat e finalPath files5) (\<lambda>sz files6.
     then_do (calculateChecksum e finalPath files6) (\<lambda>checksum files7.
       (Inr (finalPath, sz, checksum), files7)))))"

definition new_metadata :: "env \<Rightarrow> BackupMetadata" where
  "new_metadata e =
     \<lparr>id_m = ''backup_'' @ show_int (date_now e), timestamp = DateObj (new_date e),
      type_m = TFull, size_m = 0, path_m = [], checksum = [], collections = None,
      status = Pending, error = None\<rparr>"

definition createFullBackup :: "BackupOptions \<Rightarrow> env \<Rightarrow> state \<Rightarrow> (thrown + BackupMetadata) \<times> state" where
  "createFullBackup options e s =
     (if isBackupRunning s then (Inl (Error ''Backup is already in progress''), s)
      else
        let s1 = s\<lparr>isBackupRunning := True\<rparr>;
            metadata = new_metadata e
        in case backup_steps options e (backupDir s1) (id_m metadata) (disk s1) of
             (Inr (finalPath, sz, digest), files) \<Rightarrow>
               let finished = metadata\<lparr>path_m := finalPath, size_m := sz, checksum := digest,
                                       status := Completed\<rparr>;
                   s2 = saveBackupHistory e
                          (s1\<lparr>disk := files, backupHistory := backupHistory s1 @ [finished]\<rparr>)
               in (Inr finished, s2\<lparr>isBackupRunning := False\<rparr>)
           | (Inl err, files) \<Rightarrow>
               let failed = metadata\<lparr>status := Failed, error := Some (error_message err)\<rparr>;
                   s2 = saveBackupHistory e
                          (s1\<lparr>disk := files, backupHistory := backupHistory s1 @ [failed]\<rparr>)
               in (Inl err, s2\<lparr>isBackupRunning := False\<rparr>))"

text \<open>
  The call whose archive's output stream fails (the archive cannot be opened, or the
  disk fills while it is written): the error event has no listener, neither
  \<^verbatim>\<open>resolve\<close> nor \<^verbatim>\<open>reject\<close> is called, and the call never returns (or the process dies
  of the unhandled error). The state it leaves, when the call gets to the archive: the
  guard is up, the staging directory is on the disk with what the output stream wrote,
  and no record was appended.
\<close>

definition stalled_backup :: "BackupOptions \<Rightarrow> env \<Rightarrow> state \<Rightarrow> state option" where
  "stalled_backup options e s =
     (if isBackupRunning s \<or> compression options = Some False then None
      else
        case snapshot_steps options e (backupDir s) (id_m (new_metadata e)) (disk s) of
          (Inl err, files) \<Rightarrow> None
        | (Inr u, files) \<Rightarrow>
            Some (s\<lparr>isBackupRunning := True,
                    disk := (case torn_write e (backupDir s @ [id_m (new_metadata e) @ ''.tar.gz'']) of
                               None \<Rightarrow> files
                             | Some part \<Rightarrow>
                                 put (backupDir s @ [id_m (new_metadata e) @ ''.tar.gz''])
                                   (File part) files)\<rparr>))"

subsection \<open>Sorting by timestamp\<close>

text \<open>
  \<^verbatim>\<open>timestamp.getTime()\<close>: a \<^verbatim>\<open>Date\<close> gives its milliseconds; a string has no such method
  and the call throws a \<^verbatim>\<open>TypeError\<close>.
\<close>

fun getTime :: "js_time \<Rightarrow> thrown + int" where
  "getTime (DateObj t) = Inr t"
| "getTime (DateString t) = Inl (Error ''timestamp.getTime is not a function'')"

text \<open>\<^verbatim>\<open>(a, b) => a.timestamp.getTime() - b.timestamp.getTime()\<close>\<close>

definition compare_asc :: "BackupMetadata \<Rightarrow> BackupMetadata \<Rightarrow> thrown + int" where
  "compare_asc a b =
     (case getTime (timestamp a) of
        Inl err \<Rightarrow> Inl err
      | Inr ta \<Rightarrow> (case getTime (timestamp b) of Inl err \<Rightarrow> Inl err | Inr tb \<Rightarrow> Inr (ta - tb)))"

text \<open>\<^verbatim>\<open>(a, b) => b.timestamp.getTime() - a.timestamp.getTime()\<close>\<close>

definition compare_desc :: "BackupMetadata \<Rightarrow> BackupMetadata \<Rightarrow> thrown + int" where
  "compare_desc a b = compare_asc b a"

text \<open>
  \<^verbatim>\<open>Array.prototype.sort\<close> with a comparator: a stable sort, here by insertion; an array
  of fewer than two elements is never compared; a comparator that throws ends the sort.
\<close>

fun insert_by :: "('a \<Rightarrow> 'a \<Rightarrow> thrown + int) \<Rightarrow> 'a \<Rightarrow> 'a list \<Rightarrow> thrown + 'a list" where
  "insert_by cmp x [] = Inr [x]"
| "insert_by cmp x (y # ys) =
     (case cmp x y of
        Inl err \<Rightarrow> Inl err
      | Inr c \<Rightarrow>
          if c \<le> 0 then Inr (x # y # ys)
          else (case insert_by cmp x ys of Inl err \<Rightarrow> Inl err | Inr r \<Rightarrow> Inr (y # r)))"

fun sort_by :: "('a \<Rightarrow> 'a \<Rightarrow> thrown + int) \<Rightarrow> 'a list \<Rightarrow> thrown + 'a list" where
  "sort_by cmp [] = Inr []"
| "sort_by cmp (x # xs) =
     (case sort_by cmp xs of Inl err \<Rightarrow> Inl err | Inr r \<Rightarrow> insert_by cmp x r)"

definition getBackupHistory :: "state \<Rightarrow> thrown + BackupMetadata list" where
  "getBackupHistory s = sort_by compare_desc (backupHistory s)"

subsection \<open>Retention cleanup\<close>

text \<open>The body of the inner \<^verbatim>\<open>try\<close> of the loop of \<^verbatim>\<open>cleanupOldBackups\<close>.\<close>

definition delete_backup :: "env \<Rightarrow> BackupMetadata \<Rightarrow> state \<Rightarrow> (thrown + unit) \<times> state" where
  "delete_backup e backup s =
     (case rm_force e (path_m backup) (disk s) of
        (Inl err, files) \<Rightarrow> (Inl err, s\<lparr>disk := files\<rparr>)
      | (Inr u, files) \<Rightarrow>
          (Inr (), s\<lparr>disk := files,
                     backupHistory := filter (\<lambda>b. id_m b \<noteq> id_m backup) (backupHistory s)\<rparr>))"

fun delete_backups :: "env \<Rightarrow> BackupMetadata list \<Rightarrow> state \<Rightarrow> (thrown + unit) \<times> state" where
  "delete_backups e [] s = (Inr (), s)"
| "delete_backups e (backup # rest) s =
     then_do (catch_log (delete_backup e backup s)) (\<lambda>_ s1. delete_backups e rest s1)"

text \<open>The body of the outer \<^verbatim>\<open>try\<close>, and the method with its \<^verbatim>\<open>catch\<close>.\<close>

definition cleanup_body :: "env \<Rightarrow> state \<Rightarrow> (thrown + unit) \<times> state" where
  "cleanup_body e s =
     (case sort_by compare_asc (filter (\<lambda>b. status b = Completed) (backupHistory s)) of
        Inl err \<Rightarrow> (Inl err, s)
      | Inr sortedBackups \<Rightarrow>
          if length sortedBackups \<le> maxBackups s then (Inr (), s)
          else
            then_do
              (delete_backups e (take (length sortedBackups - maxBackups s) sortedBackups) s)
              (\<lambda>_ s1. (Inr (), saveBackupHistory e s1)))"

definition cleanupOldBackups :: "env \<Rightarrow> state \<Rightarrow> (thrown + unit) \<times> state" where
  "cleanupOldBackups e s = catch_log (cleanup_body e s)"

section \<open>Data export\<close>

record ExportOptions =
  collection :: string
  format :: string
  dateRange :: "(int option \<times> int option) option"
  filters :: "jsobj option"
  fields_o :: "string list option"

text \<open>\<^verbatim>\<open>item[key]\<close>, \<^verbatim>\<open>===\<close> (two objects are never the same object) and \<^verbatim>\<open>obj[key] = v\<close>.\<close>

definition get_prop :: "jsobj \<Rightarrow> string \<Rightarrow> jsval" where
  "get_prop item key = (case map_of item key of None \<Rightarrow> JUndefined | Some v \<Rightarrow> v)"

fun strict_eq :: "jsval \<Rightarrow> jsval \<Rightarrow> bool" where
  "strict_eq (JObject a) v = False"
| "strict_eq v (JObject b) = False"
| "strict_eq v w = (v = w)"

fun set_prop :: "jsobj \<Rightarrow> string \<Rightarrow> jsval \<Rightarrow> jsobj" where
  "set_prop [] key v = [(key, v)]"
| "set_prop ((k, w) # rest) key v =
     (if k = key then (k, v) # rest else (k, w) # set_prop rest key v)"

text \<open>\<^verbatim>\<open>Object.entries(options.filters).every(([key, value]) => item[key] === value)\<close>\<close>

definition matches_filters :: "jsobj \<Rightarrow> jsobj \<Rightarrow> bool" where
  "matches_filters flt item = list_all (\<lambda>(key, v). strict_eq (get_prop item key) v) flt"

text \<open>\<^verbatim>\<open>options.fields.forEach(field => { filtered[field] = item[field] })\<close>\<close>

definition project :: "string list \<Rightarrow> jsobj \<Rightarrow> jsobj" where
  "project flds item = fold (\<lambda>field filtered. set_prop filtered field (get_prop item field)) flds []"

definition getProductsData :: "jsobj list \<Rightarrow> ExportOptions \<Rightarrow> jsobj list" where
  "getProductsData prods options =
     (let data = prods;
          data1 = (case filters options of
                     Some flt \<Rightarrow> filter (matches_filters flt) data | None \<Rightarrow> data);
          data2 = (case fields_o options of
                     Some flds \<Rightarrow> map (project flds) data1 | None \<Rightarrow> data1)
      in data2)"

text \<open>
  \<^verbatim>\<open>saleDate >= start && saleDate <= end\<close>, with \<open>None\<close> for an invalid date, which
  compares false with everything. The reading of \<^verbatim>\<open>new Date(sale.createdAt)\<close> is a
  parameter.
\<close>

definition in_range :: "int option \<Rightarrow> int option \<times> int option \<Rightarrow> bool" where
  "in_range d r =
     (case (d, r) of
        (Some t, Some start, Some end) \<Rightarrow> start \<le> t \<and> t \<le> end
      | _ \<Rightarrow> False)"

definition getSalesData :: "(jsval \<Rightarrow> int option) \<Rightarrow> jsobj list \<Rightarrow> ExportOptions \<Rightarrow> jsobj list" where
  "getSalesData new_Date sls options =
     (let data = sls;
          data1 = (case dateRange options of
                     Some r \<Rightarrow> filter (\<lambda>sale. in_range (new_Date (get_prop sale ''createdAt'')) r) data
                   | None \<Rightarrow> data);
          data2 = (case filters options of
                     Some flt \<Rightarrow> filter (matches_filters flt) data1 | None \<Rightarrow> data1)
      in data2)"

definition getInventoryData :: "jsobj list \<Rightarrow> ExportOptions \<Rightarrow> jsobj list" where
  "getInventoryData prods options =
     map (\<lambda>product.
            [(''id'', get_prop product ''id''),
             (''name'', get_prop product ''name''),
             (''category'', get_prop product ''category''),
             (''currentStock'', get_prop product ''quantity''),
             (''barcode'', get_prop product ''barcode''),
             (''cost'', get_prop product ''cost''),
             (''price'', get_prop product ''price''),
             (''supplierId'', get_prop product ''supplierId''),
             (''minStockLevel'', get_prop product ''minStockLevel'')]) prods"

subsection \<open>CSV\<close>

fun js_String :: "jsval \<Rightarrow> string" where
  "js_String JUndefined = ''undefined''"
| "js_String JNull = ''null''"
| "js_String (JBool b) = (if b then ''true'' else ''false'')"
| "js_String (JNum n) = show_int n"
| "js_String (JStr s) = s"
| "js_String (JObject s) = s"

fun join :: "string \<Rightarrow> string list \<Rightarrow> string" where
  "join sep [] = []"
| "join sep [x] = x"
| "join sep (x # y # ys) = x @ sep @ join sep (y # ys)"

text \<open>\<^verbatim>\<open>value.replace(/"/g, '""')\<close>\<close>

definition double_quotes :: "string \<Rightarrow> string" where
  "double_quotes s = concat (map (\<lambda>c. if c = CHR 0x22 then [CHR 0x22, CHR 0x22] else [c]) s)"

fun csv_cell :: "jsval \<Rightarrow> string" where
  "csv_cell JNull = []"
| "csv_cell JUndefined = []"
| "csv_cell (JStr s) =
     (if CHR '','' \<in> set s then [CHR 0x22] @ double_quotes s @ [CHR 0x22] else js_String (JStr s))"
| "csv_cell v = js_String v"

text \<open>The text \<^verbatim>\<open>exportToCSV\<close> writes: the empty text for no data.\<close>

definition csv_content :: "jsobj list \<Rightarrow> string" where
  "csv_content data =
     (case data of
        [] \<Rightarrow> []
      | first # _ \<Rightarrow>
          let headers = map fst first in
          join [CHR 0x0A]
            (join '','' headers #
             map (\<lambda>row. join '','' (map (\<lambda>header. csv_cell (get_prop row header)) headers)) data))"

definition exportToCSV :: "env \<Rightarrow> jsobj list \<Rightarrow> path \<Rightarrow> fs \<Rightarrow> (thrown + unit) \<times> fs" where
  "exportToCSV e data filePath files = writeFile e filePath (csv_content data) files"

text \<open>The \<^verbatim>\<open>switch\<close> on the collection: the data and the file name.\<close>

definition collection_data ::
  "env \<Rightarrow> (jsval \<Rightarrow> int option) \<Rightarrow> ExportOptions \<Rightarrow> thrown + jsobj list \<times> string" where
  "collection_data e new_Date options =
     (if collection options = ''products''
      then Inr (getProductsData (products (db e)) options, ''products'')
      else if collection options = ''sales''
      then Inr (getSalesData new_Date (sales (db e)) options, ''sales'')
      else if collection options = ''inventory''
      then Inr (getInventoryData (products (db e)) options, ''inventory'')
      else Inl (Error (''Unsupported collection: '' @ collection options)))"

definition write_export ::
  "env \<Rightarrow> ExportOptions \<Rightarrow> path \<Rightarrow> jsobj list \<times> string \<Rightarrow> fs \<Rightarrow> (thrown + path) \<times> fs" where
  "write_export e options exportPath df files =
     (if format options = ''json''
      then (case stringify e (fst df) of
              Inl err \<Rightarrow> (Inl err, files)
            | Inr txt \<Rightarrow>
                then_do (writeFile e (exportPath @ [snd df @ ''.json'']) txt files)
                  (\<lambda>_ files1. (Inr (exportPath @ [snd df @ ''.json'']), files1)))
      else if format options = ''csv''
      then then_do (exportToCSV e (fst df) (exportPath @ [snd df @ ''.csv'']) files)
             (\<lambda>_ files1. (Inr (exportPath @ [snd df @ ''.csv'']), files1))
      else (Inl (Error (''Unsupported format: '' @ format options)), files))"

text \<open>
  \<^verbatim>\<open>exportData\<close>. The export directory is made before the collection is looked at; its
  name is one path segment for a collection name without separators, as the three
  supported names are.
\<close>

definition exportData ::
  "env \<Rightarrow> (jsval \<Rightarrow> int option) \<Rightarrow> ExportOptions \<Rightarrow> state \<Rightarrow> (thrown + path) \<times> state" where
  "exportData e new_Date options s =
     (let exportId = ''export_'' @ collection options @ ''_'' @ show_int (date_now e);
          exportPath = backupDir s @ [''exports'', exportId];
          r = then_do (mkdir e exportPath (disk s)) (\<lambda>_ files1.
                (case collection_data e new_Date options of
                   Inl err \<Rightarrow> (Inl err, files1)
                 | Inr df \<Rightarrow> write_export e options exportPath df files1))
      in (fst r, s\<lparr>disk := snd r\<rparr>))"

section \<open>The download route\<close>

text \<open>
  The handler of \<^verbatim>\<open>GET /download/:filename\<close> reads the file system under
  \<^verbatim>\<open>process.cwd()/backups\<close>. Its store is the list of the file-system calls it has made.
  The answer is the status with its message, or the file that is streamed with the size
  for the \<^verbatim>\<open>Content-Length\<close> header; the content type, read off the extension, is left
  out.
\<close>

datatype fs_call = Access path | Readdir path | Stat path





text \<open>
  The names of the entries of a directory as \<^verbatim>\<open>fs.readdir\<close> returns them: sorted, byte
  by byte.
\<close>

definition children :: "path \<Rightarrow> fs \<Rightarrow> string list" where
  "children p files =
     sort (remdups (map (\<lambda>(q, _). last q)
                      (filter (\<lambda>(q, _). length q = Suc (length p) \<and> prefix p q) files)))"

definition readdir :: "env \<Rightarrow> fs \<Rightarrow> path \<Rightarrow> fs_call list \<Rightarrow> (thrown + string list) \<times> fs_call list" where
  "readdir e files p calls =
     ((case fault_readdir e p of
         Some err \<Rightarrow> Inl err
       | None \<Rightarrow>
           (case map_of files p of
              None \<Rightarrow> Inl (Error ''ENOENT'')
            | Some Dir \<Rightarrow> Inr (children p files)
            | Some _ \<Rightarrow> Inl (Error ''ENOTDIR''))),
      calls @ [Readdir p])"







section \<open>The states the service can reach\<close>

text \<open>
  A first start with no history document, then any number of backups (those that
  return and those that stall), cleanups, exports and restarts of the process over the
  same disk.
\<close>

inductive reachable :: "state \<Rightarrow> bool" where
  start: "reachable (new_BackupService e files None)"
| backup: "reachable s \<Longrightarrow> reachable (snd (createFullBackup options e s))"
| stall: "reachable s \<Longrightarrow> stalled_backup options e s = Some s' \<Longrightarrow> reachable s'"
| cleanup: "reachable s \<Longrightarrow> reachable (snd (cleanupOldBackups e s))"
| export: "reachable s \<Longrightarrow> reachable (snd (exportData e new_Date xoptions s))"
| restart: "reachable s \<Longrightarrow> reachable (new_BackupService e (disk s) (historyFile s))"

section \<open>Retention, in the words of the specification\<close>

text \<open>
  The instant of a timestamp, whether it is a \<^verbatim>\<open>Date\<close>; the completed records oldest
  first; the oldest ones beyond the retention count; those of them whose artifact can be
  removed, and those whose artifact cannot.
\<close>

fun instant :: "js_time \<Rightarrow> int" where
  "instant (DateObj t) = t"
| "instant (DateString t) = t"

fun is_Date :: "js_time \<Rightarrow> bool" where
  "is_Date (DateObj t) = True"
| "is_Date (DateString t) = False"

definition oldest_first :: "state \<Rightarrow> BackupMetadata list" where
  "oldest_first s =
     sort_key (\<lambda>b. instant (timestamp b)) (filter (\<lambda>b. status b = Completed) (backupHistory s))"

definition to_delete :: "state \<Rightarrow> BackupMetadata list" where
  "to_delete s = take (length (oldest_first s) - maxBackups s) (oldest_first s)"

definition deleted :: "env \<Rightarrow> state \<Rightarrow> BackupMetadata list" where
  "deleted e s = filter (\<lambda>b. fault_rm e (path_m b) = None) (to_delete s)"

definition undeleted :: "env \<Rightarrow> state \<Rightarrow> BackupMetadata list" where
  "undeleted e s = filter (\<lambda>b. fault_rm e (path_m b) \<noteq> None) (to_delete s)"

text \<open>The completed records of the history whose artifact is on the disk.\<close>

definition completed_on_disk :: "state \<Rightarrow> BackupMetadata list" where
  "completed_on_disk s =
     filter (\<lambda>b. status b = Completed \<and> map_of (disk s) (path_m b) \<noteq> None) (backupHistory s)"

section \<open>The invariant of the history\<close>

text \<open>No record of the history in memory or of the history document is pending.\<close>

definition terminal_history :: "state \<Rightarrow> bool" where
  "terminal_history s =
     (list_all (\<lambda>b. status b \<noteq> Pending) (backupHistory s) \<and>
      (case historyFile s of None \<Rightarrow> True | Some doc \<Rightarrow> list_all (\<lambda>b. status b \<noteq> Pending) doc))"

section \<open>Examples\<close>

text \<open>A world in which no call fails, with empty collections and no uploads or logs.\<close>

definition quiet :: env where
  "quiet =
     \<lparr>cwd = [''app''], date_now = 1000, new_date = 1000,
      db = \<lparr>products = [], sales = [], users = [], suppliers = [], purchaseOrders = []\<rparr>,
      uploads_dir = None, logs_dir = None,
      fault_mkdir = (\<lambda>_. None), fault_writeFile = (\<lambda>_. None), fault_readFile = (\<lambda>_. None),
      fault_copyFile = (\<lambda>_. None), fault_readdir = (\<lambda>_. None), fault_access = (\<lambda>_. None),
      fault_rm = (\<lambda>_. None), fault_stat = (\<lambda>_. None), fault_archive = (\<lambda>_. None),
      fault_checksum = (\<lambda>_. None), torn_write = (\<lambda>_. None),
      stringify = (\<lambda>_. Inr ''[]''), stat_size = (\<lambda>_. 512), sha256_hex = (\<lambda>_. ''e3b0'')\<rparr>"

definition defaults :: BackupOptions where
  "defaults = \<lparr>includeUploads = None, includeDatabase = None, includeLogs = None, compression = None\<rparr>"

definition fresh :: state where
  "fresh = new_BackupService quiet [] None"

text \<open>The same world, but the archiver reports a full disk.\<close>

definition archive_fails :: env where
  "archive_fails = quiet\<lparr>fault_archive := (\<lambda>_. Some (Error ''ENOSPC''))\<rparr>"

text \<open>A world in which \<^verbatim>\<open>JSON.stringify\<close> throws on the sales collection.\<close>

definition sales_circular :: env where
  "sales_circular =
     quiet\<lparr>db := \<lparr>products = [], sales = [[(''id'', JNum 7)]], users = [], suppliers = [],
                   purchaseOrders = []\<rparr>,
           stringify := (\<lambda>data. if data = [[(''id'', JNum 7)]]
                                 then Inl (Error ''Converting circular structure to JSON'')
                                 else Inr ''[]'')\<rparr>"

text \<open>A backup without compression.\<close>

definition uncompressed :: BackupOptions where
  "uncompressed = defaults\<lparr>compression := Some False\<rparr>"



text \<open>The products of the scenario, and its export.\<close>

definition coffee_tea :: env where
  "coffee_tea =
     quiet\<lparr>db := \<lparr>products = [[(''id'', JNum 1), (''name'', JStr ''Coffee'')],
                                [(''id'', JNum 2), (''name'', JStr ''Tea'')]],
                   sales = [], users = [], suppliers = [], purchaseOrders = []\<rparr>\<rparr>"

definition products_csv :: ExportOptions where
  "products_csv =
     \<lparr>collection = ''products'', format = ''csv'', dateRange = None, filters = None,
      fields_o = None\<rparr>"

text \<open>One product and one sale; an export that asks for the field \<^verbatim>\<open>id\<close> only.\<close>

definition one_sale :: env where
  "one_sale =
     quiet\<lparr>db := \<lparr>products = [[(''id'', JNum 1), (''name'', JStr ''Coffee''), (''quantity'', JNum 5)]],
                   sales = [[(''id'', JNum 1), (''total'', JNum 50), (''userName'', JStr ''Ann'')]],
                   users = [], suppliers = [], purchaseOrders = []\<rparr>\<rparr>"

definition only_id :: "string \<Rightarrow> ExportOptions" where
  "only_id coll =
     \<lparr>collection = coll, format = ''json'', dateRange = None,
      filters = Some [(''id'', JNum 99)], fields_o = Some [''id'']\<rparr>"




text \<open>
  A history of \<open>n\<close> completed backups with their archives on the disk; a world in which
  no artifact can be removed, and one in which the oldest cannot.
\<close>

definition numbered :: "nat \<Rightarrow> BackupMetadata" where
  "numbered n =
     \<lparr>id_m = ''backup_'' @ show_nat n, timestamp = DateObj (int n), type_m = TFull, size_m = 512,
      path_m = [''app'', ''backups'', ''backup_'' @ show_nat n @ ''.tar.gz''], checksum = ''e3b0'',
      collections = None, status = Completed, error = None\<rparr>"

definition with_backups :: "nat \<Rightarrow> state" where
  "with_backups n =
     fresh\<lparr>backupHistory := map numbered [1..<Suc n],
           disk := disk fresh @ map (\<lambda>k. (path_m (numbered k), Archive [])) [1..<Suc n]\<rparr>"

definition rm_denied :: env where
  "rm_denied = quiet\<lparr>fault_rm := (\<lambda>_. Some (Error ''EPERM''))\<rparr>"

definition rm_first_denied :: env where
  "rm_first_denied =
     quiet\<lparr>fault_rm := (\<lambda>p. if p = [''app'', ''backups'', ''backup_1.tar.gz'']
                              then Some (Error ''EPERM'') else None)\<rparr>"

text \<open>
  Two backups a second apart, and the process started again over the disk and the
  history document they left; one backup; a history of 32 backups read back from its
  document.
\<close>

definition later :: env where
  "later = quiet\<lparr>date_now := 2000, new_date := 2000\<rparr>"

definition two_backups :: state where
  "two_backups = snd (createFullBackup defaults later (snd (createFullBackup defaults quiet fresh)))"

definition after_restart :: state where
  "after_restart = new_BackupService quiet (disk two_backups) (historyFile two_backups)"

definition one_backup :: state where
  "one_backup = snd (createFullBackup defaults quiet fresh)"

definition reloaded :: state where
  "reloaded =
     new_BackupService quiet (disk (with_backups 32))
       (Some (map json_roundtrip (backupHistory (with_backups 32))))"

section \<open>Properties\<close>

subsection \<open>Sequencing and the file system\<close>

lemma then_do_cases:
  "then_do r f = (case fst r of Inl err \<Rightarrow> (Inl err, snd r) | Inr a \<Rightarrow> f a (snd r))"
  by (cases r; cases "fst r") auto

lemma then_do_snd:
  assumes "P (snd r)" and "\<And>a. fst r = Inr a \<Longrightarrow> P (snd (f a (snd r)))"
  shows "P (snd (then_do r f))"
  using assms by (cases r; cases "fst r") auto

lemma then_do_fst_Inr: "fst r = Inr a \<Longrightarrow> then_do r f = f a (snd r)"
  by (cases r) auto

lemma then_do_throws:
  assumes "\<And>a. fst r = Inr a \<Longrightarrow> \<exists>err. fst (f a (snd r)) = Inl err"
  shows "\<exists>err. fst (then_do r f) = Inl err"
  using assms by (cases r; cases "fst r") auto

lemma catch_log_fst [simp]: "fst (catch_log r) = Inr ()"
  by (cases r; cases "fst r") auto

lemma catch_log_snd [simp]: "snd (catch_log r) = snd r"
  by (cases r; cases "fst r") auto

lemma map_of_filter_key:
  "map_of (filter (\<lambda>(q, _). P q) files) p = (if P p then map_of files p else None)"
  by (induction files) auto

lemma map_of_put: "map_of (put p n files) q = (if q = p then Some n else map_of files q)"
  by (simp add: put_def map_of_filter_key)

lemma map_of_remove_tree:
  "map_of (remove_tree p files) q = (if prefix p q then None else map_of files q)"
  by (simp add: remove_tree_def map_of_filter_key)

lemma map_of_dirs: "map_of (map (\<lambda>q. (q, Dir)) qs) p = (if p \<in> set qs then Some Dir else None)"
  by (induction qs) auto

lemma self_in_prefixes: "p \<noteq> [] \<Longrightarrow> p \<in> set (tl (prefixes p))"
  by (cases p) (auto simp: in_set_prefixes)

lemma in_tl_prefixes: "q \<in> set (tl (prefixes p)) \<longleftrightarrow> q \<noteq> [] \<and> prefix q p"
  by (cases p) (auto simp: in_set_prefixes prefix_Cons)

lemma not_prefix_longer [simp]: "x \<noteq> [] \<Longrightarrow> \<not> prefix (bp @ x) bp"
  by (auto simp add: prefix_def)

lemma not_strict_prefix_longer [simp]: "\<not> strict_prefix (bp @ x) bp"
  by (auto simp add: strict_prefix_def prefix_def)

lemma prefix_snoc_strict: "prefix (dest @ [name]) q \<Longrightarrow> strict_prefix dest q"
  by (auto simp add: prefix_def strict_prefix_def)

text \<open>Directories that are only made.\<close>

lemma grown_refl [simp]: "grown a a"
  by (simp add: grown_def)

lemma grown_trans: "grown a b \<Longrightarrow> grown b c \<Longrightarrow> grown a c"
  by (auto simp add: grown_def)

lemma grown_Some: "grown (Some v) b \<Longrightarrow> b = Some v"
  by (simp add: grown_def)

lemma grown_eq: "b = a \<Longrightarrow> grown a b"
  by (simp add: grown_def)

lemma grown_not_file:
  "grown (map_of files q) (map_of files' q) \<Longrightarrow> \<not> is_file files q \<Longrightarrow> \<not> is_file files' q"
  by (auto simp add: grown_def is_file_def)

text \<open>\<^verbatim>\<open>mkdir\<close>\<close>

lemma mkdir_ok:
  "\<not> list_ex (is_file files) (tl (prefixes p)) \<Longrightarrow> fault_mkdir e p = None \<Longrightarrow>
   fst (mkdir e p files) = Inr ()"
  by (simp add: mkdir_def)

lemma mkdir_grows: "grown (map_of files q) (map_of (snd (mkdir e p files)) q)"
  by (auto simp add: mkdir_def grown_def map_add_def map_of_dirs split: option.splits)

lemma mkdir_keeps:
  "map_of files q = Some v \<Longrightarrow> map_of (snd (mkdir e p files)) q = Some v"
  using mkdir_grows [of files q e p] by (simp add: grown_def)

lemma mkdir_frame:
  "\<not> prefix q p \<Longrightarrow> map_of (snd (mkdir e p files)) q = map_of files q"
  by (auto simp add: mkdir_def map_add_def map_of_dirs in_tl_prefixes split: option.splits)

lemma mkdir_dirs:
  assumes "fst (mkdir e p files) = Inr u" "q \<noteq> []" "prefix q p"
  shows "map_of (snd (mkdir e p files)) q = Some Dir"
proof -
  from assms(1) have nf: "\<not> list_ex (is_file files) (tl (prefixes p))" and f: "fault_mkdir e p = None"
    by (auto simp add: mkdir_def split: if_splits option.splits)
  have q: "q \<in> set (tl (prefixes p))" using assms by (simp add: in_tl_prefixes)
  with nf have "\<not> is_file files q" by (auto simp add: list_ex_iff)
  then have "map_of files q = None \<or> map_of files q = Some Dir"
    by (auto simp add: is_file_def split: option.splits node.splits)
  then show ?thesis
    using nf f q by (auto simp add: mkdir_def map_add_def map_of_dirs split: option.splits)
qed

text \<open>Writes: one path changes, and no directory is made or lost.\<close>

lemma write_all_frame:
  "q \<noteq> p \<Longrightarrow> map_of (snd (write_all fault torn p body files)) q = map_of files q"
  by (simp add: write_all_def map_of_put split: option.splits)

lemma write_all_is_dir: "is_dir (snd (write_all fault torn p body files)) q = is_dir files q"
  by (auto simp add: write_all_def open_error_def is_dir_def map_of_put split: option.splits if_splits)

lemma write_all_ok:
  "\<not> is_dir files p \<Longrightarrow> is_dir files (butlast p) \<Longrightarrow>
   write_all None torn p body files = (Inr (), put p (File body) files)"
  by (simp add: write_all_def open_error_def)

lemma write_all_grows:
  "q \<noteq> p \<Longrightarrow> grown (map_of files q) (map_of (snd (write_all fault torn p body files)) q)"
  by (simp add: write_all_frame)

declare copyDirectory.simps [simp del]

text \<open>A copy writes below its destination only, and above it only makes directories.\<close>

lemma copy_grows:
  "\<not> prefix dest q \<Longrightarrow>
     grown (map_of files q) (map_of (snd (copyDirectory e es src dest files)) q)"
  "\<not> strict_prefix dest q \<Longrightarrow>
     grown (map_of files q) (map_of (snd (copyEntries e es src dest files)) q)"
proof (induction e es src dest files and e es src dest files
       rule: copyDirectory_copyEntries.induct)
  case (1 e es src dest files)
  have k: "grown (map_of files q) (map_of (snd (mkdir e dest files)) q)"
    by (rule mkdir_grows)
  have np: "\<not> strict_prefix dest q" using 1 by (simp add: strict_prefix_def)
  show ?case
    unfolding copyDirectory.simps
  proof (rule then_do_snd [where P = "\<lambda>fs. grown (map_of files q) (map_of fs q)"])
    show "grown (map_of files q) (map_of (snd (mkdir e dest files)) q)" by (rule k)
  next
    fix a
    show "grown (map_of files q) (map_of (snd (case fault_readdir e src of
              None \<Rightarrow> copyEntries e es src dest (snd (mkdir e dest files))
            | Some err \<Rightarrow> (Inl err, snd (mkdir e dest files)))) q)"
    proof (cases "fault_readdir e src")
      case None
      from grown_trans [OF k "1.IH" [OF None np]] None show ?thesis by simp
    next
      case (Some err)
      with k show ?thesis by simp
    qed
  qed
next
  case (2 e src dest files)
  then show ?case by simp
next
  case (3 e name sub es src dest files)
  have np: "\<not> prefix (dest @ [name]) q"
    using "3.prems" prefix_snoc_strict [of dest name q] by auto
  have k: "grown (map_of files q)
             (map_of (snd (copyDirectory e sub (src @ [name]) (dest @ [name]) files)) q)"
    by (rule "3.IH"(1) [OF np])
  show ?case
    unfolding copyEntries.simps
  proof (rule then_do_snd [where P = "\<lambda>fs. grown (map_of files q) (map_of fs q)"])
    show "grown (map_of files q)
            (map_of (snd (copyDirectory e sub (src @ [name]) (dest @ [name]) files)) q)"
      by (rule k)
  next
    fix a
    show "grown (map_of files q) (map_of (snd (copyEntries e es src dest
             (snd (copyDirectory e sub (src @ [name]) (dest @ [name]) files)))) q)"
      by (rule grown_trans [OF k "3.IH"(2) [OF "3.prems"]])
  qed
next
  case (4 e name body es src dest files)
  have ne: "q \<noteq> dest @ [name]"
    using "4.prems" by (auto simp add: strict_prefix_def)
  have k: "grown (map_of files q) (map_of (snd (copyFile e body (dest @ [name]) files)) q)"
    unfolding copyFile_def by (rule write_all_grows [OF ne])
  show ?case
    unfolding copyEntries.simps
  proof (rule then_do_snd [where P = "\<lambda>fs. grown (map_of files q) (map_of fs q)"])
    show "grown (map_of files q) (map_of (snd (copyFile e body (dest @ [name]) files)) q)"
      by (rule k)
  next
    fix a
    show "grown (map_of files q) (map_of (snd (copyEntries e es src dest
             (snd (copyFile e body (dest @ [name]) files)))) q)"
      by (rule grown_trans [OF k "4.IH" [OF "4.prems"]])
  qed
qed

subsection \<open>The history document\<close>

lemma saveBackupHistory_fields [simp]:
  "isBackupRunning (saveBackupHistory e s) = isBackupRunning s"
  "backupHistory (saveBackupHistory e s) = backupHistory s"
  "disk (saveBackupHistory e s) = disk s"
  "backupDir (saveBackupHistory e s) = backupDir s"
  "maxBackups (saveBackupHistory e s) = maxBackups s"
  by (simp_all add: saveBackupHistory_def split: option.splits)

subsection \<open>The single-flight guard\<close>

text \<open>
  C1. A call of \<^verbatim>\<open>createFullBackup\<close> made while a backup is running throws
  \<^verbatim>\<open>Backup is already in progress\<close> and leaves the whole state as it was: the disk (no
  staging directory), the history in memory and the history document.
\<close>

theorem createFullBackup_in_progress:
  "isBackupRunning s \<Longrightarrow>
   createFullBackup options e s = (Inl (Error ''Backup is already in progress''), s)"
  by (simp add: createFullBackup_def)

theorem createFullBackup_in_progress_witness:
  "isBackupRunning (fresh\<lparr>isBackupRunning := True\<rparr>) \<and>
   createFullBackup defaults quiet (fresh\<lparr>isBackupRunning := True\<rparr>) =
     (Inl (Error ''Backup is already in progress''), fresh\<lparr>isBackupRunning := True\<rparr>)"
  using createFullBackup_in_progress [of "fresh\<lparr>isBackupRunning := True\<rparr>" defaults quiet]
  by simp

subsection \<open>A failed run\<close>

text \<open>
  The first step, as an instance: when the staging directory cannot be made, because a
  file is in the way or because the system refuses, the run throws that error.
\<close>

lemma backup_steps_mkdir_blocked:
  "is_file files (bdir @ [backupId]) \<Longrightarrow>
   backup_steps options e bdir backupId files = (Inl (Error ''EEXIST''), files)"
  by (auto simp add: backup_steps_def snapshot_steps_def mkdir_def list_ex_iff in_tl_prefixes)

lemma backup_steps_mkdir_fault:
  "\<not> list_ex (is_file files) (tl (prefixes (bdir @ [backupId]))) \<Longrightarrow>
   fault_mkdir e (bdir @ [backupId]) = Some err \<Longrightarrow>
   backup_steps options e bdir backupId files = (Inl err, files)"
  by (simp add: backup_steps_def snapshot_steps_def mkdir_def)

text \<open>
  C2. When a step of the \<^verbatim>\<open>try\<close> of \<^verbatim>\<open>createFullBackup\<close> throws \<open>err\<close>, the call throws
  the same \<open>err\<close>, the history is the old one followed by exactly one record, the run's
  metadata with status \<^verbatim>\<open>failed\<close> and the error's message, and the guard is down
  afterwards; the guard is down after every call that found it down, whatever the
  options and the world.
\<close>

theorem createFullBackup_failure:
  assumes "\<not> isBackupRunning s"
    and "fst (backup_steps options e (backupDir s) (id_m (new_metadata e)) (disk s)) = Inl err"
  shows "fst (createFullBackup options e s) = Inl err \<and>
         backupHistory (snd (createFullBackup options e s)) =
           backupHistory s @
             [(new_metadata e)\<lparr>status := Failed, error := Some (error_message err)\<rparr>] \<and>
         \<not> isBackupRunning (snd (createFullBackup options e s)) \<and>
         \<not> isBackupRunning (snd (createFullBackup options' e' s))"
  using assms
  by (auto simp add: createFullBackup_def Let_def split: prod.splits sum.splits)

theorem createFullBackup_failure_witness:
  "\<not> isBackupRunning fresh \<and>
   fst (backup_steps defaults archive_fails (backupDir fresh)
          (id_m (new_metadata archive_fails)) (disk fresh)) = Inl (Error ''ENOSPC'') \<and>
   fst (createFullBackup defaults archive_fails fresh) = Inl (Error ''ENOSPC'') \<and>
   backupHistory (snd (createFullBackup defaults archive_fails fresh)) =
     backupHistory fresh @
       [(new_metadata archive_fails)\<lparr>status := Failed, error := Some ''ENOSPC''\<rparr>] \<and>
   \<not> isBackupRunning (snd (createFullBackup defaults archive_fails fresh)) \<and>
   \<not> isBackupRunning (snd (createFullBackup defaults quiet fresh))"
proof -
  have g: "\<not> isBackupRunning fresh" by code_simp
  have f: "fst (backup_steps defaults archive_fails (backupDir fresh)
             (id_m (new_metadata archive_fails)) (disk fresh)) = Inl (Error ''ENOSPC'')"
    by code_simp
  show ?thesis
    using createFullBackup_failure [OF g f, of defaults quiet] g f by simp
qed

text \<open>
  A call that stalls in the archive holds the guard for good: every later call is
  turned away, and nothing was recorded.
\<close>

lemma stalled_backup_holds_guard:
  assumes "stalled_backup options e s = Some s'"
  shows "isBackupRunning s' \<and> backupHistory s' = backupHistory s \<and>
         historyFile s' = historyFile s \<and>
         createFullBackup options' e' s' = (Inl (Error ''Backup is already in progress''), s')"
proof -
  from assms have "isBackupRunning s' \<and> backupHistory s' = backupHistory s \<and>
         historyFile s' = historyFile s"
    by (auto simp add: stalled_backup_def split: if_splits prod.splits sum.splits)
  then show ?thesis by (simp add: createFullBackup_def)
qed

subsection \<open>The database snapshot\<close>

lemma exportCollections_fst: "fst (exportCollections e dbp cs files) = Inr ()"
  by (induction cs arbitrary: files) (simp_all add: then_do_fst_Inr)

text \<open>A collection that fails to serialize is skipped: nothing is written for it.\<close>

lemma exportCollection_skipped:
  "stringify e (snd c) = Inl err \<Longrightarrow>
   catch_log (exportCollection e dbp c files) = (Inr (), files)"
  by (simp add: exportCollection_def)

lemma exportCollection_frame:
  "q \<noteq> dbp @ [fst c @ ''.json''] \<Longrightarrow>
   map_of (snd (exportCollection e dbp c files)) q = map_of files q"
  by (simp add: exportCollection_def writeFile_def write_all_frame split: sum.splits)

lemma exportCollection_is_dir:
  "is_dir (snd (exportCollection e dbp c files)) q = is_dir files q"
  by (simp add: exportCollection_def writeFile_def write_all_is_dir split: sum.splits)

lemma exportCollections_frame:
  "q \<notin> (\<lambda>c. dbp @ [fst c @ ''.json'']) ` set cs \<Longrightarrow>
   map_of (snd (exportCollections e dbp cs files)) q = map_of files q"
proof (induction cs arbitrary: files)
  case Nil
  then show ?case by simp
next
  case (Cons c cs)
  have k: "map_of (snd (exportCollection e dbp c files)) q = map_of files q"
    using Cons.prems by (simp add: exportCollection_frame)
  have "map_of (snd (exportCollections e dbp cs (snd (exportCollection e dbp c files)))) q =
          map_of (snd (exportCollection e dbp c files)) q"
    using Cons.IH Cons.prems by simp
  with k show ?case by (simp add: then_do_fst_Inr)
qed

lemma exportCollection_written:
  "stringify e (snd c) = Inr body \<Longrightarrow> fault_writeFile e (dbp @ [fst c @ ''.json'']) = None \<Longrightarrow>
   is_dir files dbp \<Longrightarrow> \<not> is_dir files (dbp @ [fst c @ ''.json'']) \<Longrightarrow>
   map_of (snd (exportCollection e dbp c files)) (dbp @ [fst c @ ''.json'']) = Some (File body)"
  by (simp add: exportCollection_def writeFile_def write_all_ok map_of_put)

lemma exportCollections_written:
  assumes "distinct (map fst cs)" "c \<in> set cs" "stringify e (snd c) = Inr body"
    "fault_writeFile e (dbp @ [fst c @ ''.json'']) = None"
    "is_dir files dbp" "\<not> is_dir files (dbp @ [fst c @ ''.json''])"
  shows "map_of (snd (exportCollections e dbp cs files)) (dbp @ [fst c @ ''.json'']) = Some (File body)"
  using assms
proof (induction cs arbitrary: files)
  case Nil
  then show ?case by simp
next
  case (Cons d cs)
  show ?case
  proof (cases "c = d")
    case True
    have w: "map_of (snd (exportCollection e dbp d files)) (dbp @ [fst c @ ''.json'']) = Some (File body)"
      using True Cons.prems by (simp add: exportCollection_written)
    have "fst c \<notin> fst ` set cs" using True Cons.prems(1) by simp
    then have "dbp @ [fst c @ ''.json''] \<notin> (\<lambda>c. dbp @ [fst c @ ''.json'']) ` set cs"
      by auto
    from exportCollections_frame [OF this] w
    show ?thesis by (simp add: then_do_fst_Inr)
  next
    case False
    then have m: "c \<in> set cs" using Cons.prems(2) by simp
    have d: "distinct (map fst cs)" using Cons.prems(1) by simp
    have i1: "is_dir (snd (exportCollection e dbp d files)) dbp"
      using Cons.prems(5) by (simp add: exportCollection_is_dir)
    have i2: "\<not> is_dir (snd (exportCollection e dbp d files)) (dbp @ [fst c @ ''.json''])"
      using Cons.prems(6) by (simp add: exportCollection_is_dir)
    from Cons.IH [OF d m Cons.prems(3) Cons.prems(4) i1 i2]
    show ?thesis by (simp add: then_do_fst_Inr)
  qed
qed

lemma collections_distinct: "distinct (map fst (collections_list e))"
  by (simp add: collections_list_def)

lemma backupDatabase_ok:
  assumes "\<not> list_ex (is_file files) (tl (prefixes (bp @ [''database''])))"
    and "fault_mkdir e (bp @ [''database'']) = None"
  shows "fst (backupDatabase e bp files) = Inr ()"
  using assms
  by (simp add: backupDatabase_def then_do_fst_Inr mkdir_ok exportCollectionsAsJSON_def
      exportCollections_fst)

lemma backupDatabase_written:
  assumes "\<not> list_ex (is_file files) (tl (prefixes (bp @ [''database''])))"
    and "fault_mkdir e (bp @ [''database'']) = None"
    and "c \<in> set (collections_list e)" "stringify e (snd c) = Inr body"
    and "fault_writeFile e (bp @ [''database''] @ [fst c @ ''.json'']) = None"
    and "map_of files (bp @ [''database''] @ [fst c @ ''.json'']) \<noteq> Some Dir"
  shows "map_of (snd (backupDatabase e bp files)) (bp @ [''database''] @ [fst c @ ''.json'']) = Some (File body)"
proof -
  define f1 where "f1 = snd (mkdir e (bp @ [''database'']) files)"
  have ok: "fst (mkdir e (bp @ [''database'']) files) = Inr ()"
    using assms(1,2) by (rule mkdir_ok)
  have d: "is_dir f1 (bp @ [''database''])"
    unfolding f1_def is_dir_def using mkdir_dirs [OF ok, of "bp @ [''database'']"] by simp
  have "map_of f1 ((bp @ [''database'']) @ [fst c @ ''.json'']) =
          map_of files ((bp @ [''database'']) @ [fst c @ ''.json''])"
    unfolding f1_def by (rule mkdir_frame) simp
  then have n: "\<not> is_dir f1 ((bp @ [''database'']) @ [fst c @ ''.json''])"
    using assms(6) by (simp add: is_dir_def)
  have w: "fault_writeFile e ((bp @ [''database'']) @ [fst c @ ''.json'']) = None"
    using assms(5) by simp
  from exportCollections_written [OF collections_distinct assms(3) assms(4) w d n] ok
  show ?thesis
    by (simp add: backupDatabase_def then_do_fst_Inr exportCollectionsAsJSON_def f1_def)
qed

lemma backupDatabase_grows:
  assumes "\<not> strict_prefix (bp @ [''database'']) q"
  shows "grown (map_of files q) (map_of (snd (backupDatabase e bp files)) q)"
  unfolding backupDatabase_def
proof (rule then_do_snd [where P = "\<lambda>fs. grown (map_of files q) (map_of fs q)"])
  show k: "grown (map_of files q) (map_of (snd (mkdir e (bp @ [''database'']) files)) q)"
    by (rule mkdir_grows)
  fix a
  have "q \<notin> (\<lambda>c. (bp @ [''database'']) @ [fst c @ ''.json'']) ` set (collections_list e)"
    using assms by (auto simp add: strict_prefix_def)
  from exportCollections_frame [OF this] k
  show "grown (map_of files q) (map_of (snd (exportCollectionsAsJSON e (bp @ [''database''])
          (snd (mkdir e (bp @ [''database'']) files)))) q)"
    by (simp add: exportCollectionsAsJSON_def)
qed

lemma access_and_copy_grows:
  "\<not> prefix dest q \<Longrightarrow>
   grown (map_of files q) (map_of (snd (access_and_copy e source src dest files)) q)"
  by (simp add: access_and_copy_def copy_grows split: option.splits)

lemma backupFiles_ok:
  "\<not> list_ex (is_file files) (tl (prefixes (bp @ [''files'']))) \<Longrightarrow>
   fault_mkdir e (bp @ [''files'']) = None \<Longrightarrow> fst (backupFiles e bp files) = Inr ()"
  by (simp add: backupFiles_def then_do_fst_Inr mkdir_ok)

lemma backupFiles_grows:
  assumes "\<not> prefix (bp @ [''files'', ''uploads'']) q"
  shows "grown (map_of files q) (map_of (snd (backupFiles e bp files)) q)"
  unfolding backupFiles_def
proof (rule then_do_snd [where P = "\<lambda>fs. grown (map_of files q) (map_of fs q)"])
  show k: "grown (map_of files q) (map_of (snd (mkdir e (bp @ [''files'']) files)) q)"
    by (rule mkdir_grows)
  fix a
  show "grown (map_of files q) (map_of (snd (catch_log (access_and_copy e (uploads_dir e)
          (cwd e @ [''public'', ''uploads'']) (bp @ [''files'', ''uploads''])
          (snd (mkdir e (bp @ [''files'']) files))))) q)"
    using grown_trans [OF k access_and_copy_grows [OF assms]] by simp
qed

lemma backupLogs_ok:
  "\<not> list_ex (is_file files) (tl (prefixes (bp @ [''logs'']))) \<Longrightarrow>
   fault_mkdir e (bp @ [''logs'']) = None \<Longrightarrow> fst (backupLogs e bp files) = Inr ()"
  by (simp add: backupLogs_def then_do_fst_Inr mkdir_ok)

lemma backupLogs_grows:
  assumes "\<not> prefix (bp @ [''logs'']) q"
  shows "grown (map_of files q) (map_of (snd (backupLogs e bp files)) q)"
  unfolding backupLogs_def
proof (rule then_do_snd [where P = "\<lambda>fs. grown (map_of files q) (map_of fs q)"])
  show k: "grown (map_of files q) (map_of (snd (mkdir e (bp @ [''logs'']) files)) q)"
    by (rule mkdir_grows)
  fix a
  show "grown (map_of files q) (map_of (snd (catch_log (access_and_copy e (logs_dir e)
          (cwd e @ [''logs'']) (bp @ [''logs''])
          (snd (mkdir e (bp @ [''logs'']) files))))) q)"
    using grown_trans [OF k access_and_copy_grows [OF assms]] by simp
qed

text \<open>What the steps of the snapshot leave outside the directories they fill.\<close>

lemma snapshot_grows:
  "\<not> strict_prefix (bp @ [''database'']) q \<Longrightarrow>
   grown (map_of files q)
     (map_of (snd (if includeDatabase options \<noteq> Some False
                   then backupDatabase e bp files else (Inr (), files))) q)"
  "\<not> prefix (bp @ [''files'', ''uploads'']) q \<Longrightarrow>
   grown (map_of files q)
     (map_of (snd (if includeUploads options \<noteq> Some False
                   then backupFiles e bp files else (Inr (), files))) q)"
  "\<not> prefix (bp @ [''logs'']) q \<Longrightarrow>
   grown (map_of files q)
     (map_of (snd (if includeLogs options = Some True
                   then backupLogs e bp files else (Inr (), files))) q)"
  by (simp_all add: backupDatabase_grows backupFiles_grows backupLogs_grows)

lemma snapshot_steps_grows:
  assumes "\<not> strict_prefix (bdir @ [backupId, ''database'']) q"
    "\<not> prefix (bdir @ [backupId, ''files'', ''uploads'']) q"
    "\<not> prefix (bdir @ [backupId, ''logs'']) q"
  shows "grown (map_of files q) (map_of (snd (snapshot_steps options e bdir backupId files)) q)"
proof -
  define bp where "bp = bdir @ [backupId]"
  have a: "\<not> strict_prefix (bp @ [''database'']) q" "\<not> prefix (bp @ [''files'', ''uploads'']) q"
    "\<not> prefix (bp @ [''logs'']) q"
    using assms by (simp_all add: bp_def)
  note g = snapshot_grows(1) [OF a(1)] snapshot_grows(2) [OF a(2)] snapshot_grows(3) [OF a(3)]
  show ?thesis
    unfolding snapshot_steps_def bp_def [symmetric]
  proof (rule then_do_snd [where P = "\<lambda>fs. grown (map_of files q) (map_of fs q)"])
    show k1: "grown (map_of files q) (map_of (snd (mkdir e bp files)) q)"
      by (rule mkdir_grows)
    fix a1
    define f1 where "f1 = snd (mkdir e bp files)"
    define r2 where "r2 = (if includeDatabase options \<noteq> Some False
                           then backupDatabase e bp f1 else (Inr (), f1))"
    have k2: "grown (map_of files q) (map_of (snd r2) q)"
      unfolding r2_def f1_def by (rule grown_trans [OF k1 g(1)])
    show "grown (map_of files q) (map_of (snd (then_do
            (if includeDatabase options \<noteq> Some False
             then backupDatabase e bp (snd (mkdir e bp files))
             else (Inr (), snd (mkdir e bp files)))
            (\<lambda>_ files2. then_do
               (if includeUploads options \<noteq> Some False
                then backupFiles e bp files2 else (Inr (), files2))
               (\<lambda>_ files3. if includeLogs options = Some True
                  then backupLogs e bp files3 else (Inr (), files3))))) q)"
      unfolding f1_def [symmetric] r2_def [symmetric]
    proof (rule then_do_snd [where P = "\<lambda>fs. grown (map_of files q) (map_of fs q)"])
      show "grown (map_of files q) (map_of (snd r2) q)" by (rule k2)
      fix a2
      define r3 where "r3 = (if includeUploads options \<noteq> Some False
                             then backupFiles e bp (snd r2) else (Inr (), snd r2))"
      have k3: "grown (map_of files q) (map_of (snd r3) q)"
        unfolding r3_def by (rule grown_trans [OF k2 g(2)])
      show "grown (map_of files q) (map_of (snd (then_do
              (if includeUploads options \<noteq> Some False
               then backupFiles e bp (snd r2) else (Inr (), snd r2))
              (\<lambda>_ files3. if includeLogs options = Some True
                 then backupLogs e bp files3 else (Inr (), files3)))) q)"
        unfolding r3_def [symmetric]
      proof (rule then_do_snd [where P = "\<lambda>fs. grown (map_of files q) (map_of fs q)"])
        show "grown (map_of files q) (map_of (snd r3) q)" by (rule k3)
        fix a3
        show "grown (map_of files q) (map_of (snd (if includeLogs options = Some True
                then backupLogs e bp (snd r3) else (Inr (), snd r3))) q)"
          by (rule grown_trans [OF k3 g(3)])
      qed
    qed
  qed
qed

lemma map_of_entries_below:
  "rel \<noteq> [] \<Longrightarrow> map_of (entries_below src files) rel = map_of files (src @ rel)"
  unfolding entries_below_def
proof (induction files)
  case Nil
  then show ?case by simp
next
  case (Cons a files)
  obtain q n where a: "a = (q, n)" by (cases a)
  show ?case
  proof (cases "strict_prefix src q")
    case True
    then obtain r where r: "q = src @ r" "r \<noteq> []"
      by (auto simp add: strict_prefix_def prefix_def)
    then show ?thesis using Cons a True by auto
  next
    case False
    then have "q \<noteq> src @ rel" using Cons.prems by (auto simp add: strict_prefix_def)
    then show ?thesis using Cons a False by auto
  qed
qed

lemma no_file_snoc:
  "list_ex (is_file f) (tl (prefixes (p @ [x]))) \<longleftrightarrow>
     list_ex (is_file f) (tl (prefixes p)) \<or> is_file f (p @ [x])"
  by (auto simp add: list_ex_iff in_tl_prefixes)

lemma above_staging:
  assumes "prefix q bp"
  shows "\<not> strict_prefix (bp @ [''database'']) q" "\<not> prefix (bp @ [''files'', ''uploads'']) q"
    "\<not> prefix (bp @ [''logs'']) q"
  using assms by (auto simp add: prefix_def strict_prefix_def)

text \<open>Making a directory that is there changes nothing.\<close>

lemma mkdir_again:
  assumes "fst (mkdir e p files) = Inr u"
  shows "mkdir e p (snd (mkdir e p files)) = (Inr (), snd (mkdir e p files))"
proof -
  define f1 where "f1 = snd (mkdir e p files)"
  have d: "map_of f1 q = Some Dir" if "q \<in> set (tl (prefixes p))" for q
    unfolding f1_def using mkdir_dirs [OF assms, of q] that by (simp add: in_tl_prefixes)
  from assms have f: "fault_mkdir e p = None"
    by (auto simp add: mkdir_def split: if_splits option.splits)
  have n: "\<not> list_ex (is_file f1) (tl (prefixes p))"
    using d by (auto simp add: list_ex_iff is_file_def)
  have "filter (\<lambda>q. map_of f1 q = None) (tl (prefixes p)) = []"
    using d by (auto simp add: filter_empty_conv)
  then have "mkdir e p f1 = (Inr (), f1)"
    using n f by (simp add: mkdir_def)
  then show ?thesis by (simp add: f1_def)
qed

text \<open>After the steps of the snapshot the staging directory is a directory.\<close>

lemma snapshot_steps_dir:
  assumes "fst (snapshot_steps options e bdir backupId files) = Inr u"
  shows "map_of (snd (snapshot_steps options e bdir backupId files)) (bdir @ [backupId]) = Some Dir"
proof -
  define bp where "bp = bdir @ [backupId]"
  define f1 where "f1 = snd (mkdir e bp files)"
  from assms have ok: "fst (mkdir e bp files) = Inr ()"
    by (cases "mkdir e bp files"; cases "fst (mkdir e bp files)")
       (auto simp add: snapshot_steps_def bp_def)
  have d: "map_of f1 bp = Some Dir"
    unfolding f1_def using mkdir_dirs [OF ok, of bp] by (simp add: bp_def)
  have same: "snapshot_steps options e bdir backupId files = snapshot_steps options e bdir backupId f1"
    using ok mkdir_again [OF ok]
    by (simp add: snapshot_steps_def bp_def [symmetric] f1_def [symmetric] then_do_fst_Inr)
  have "grown (map_of f1 bp) (map_of (snd (snapshot_steps options e bdir backupId f1)) bp)"
    unfolding bp_def by (rule snapshot_steps_grows) (simp_all add: prefix_def strict_prefix_def)
  with d same show ?thesis by (simp add: grown_def bp_def)
qed

text \<open>
  On a disk where the backup root can hold the staging directory (no file is at the
  root or above it) and the names of the run are new, and with every directory made,
  the steps of the snapshot succeed, and the snapshot of the database holds the text of
  every collection that was serialized and written.
\<close>

lemma snapshot_steps_complete:
  assumes mk: "\<forall>p. fault_mkdir e p = None"
    and root: "\<not> list_ex (is_file files) (tl (prefixes bdir))"
    and free: "\<forall>q. prefix (bdir @ [backupId]) q \<longrightarrow> map_of files q = None"
  shows "fst (snapshot_steps options e bdir backupId files) = Inr ()"
    and "includeDatabase options \<noteq> Some False \<Longrightarrow> c \<in> set (collections_list e) \<Longrightarrow>
         stringify e (snd c) = Inr body \<Longrightarrow>
         fault_writeFile e (bdir @ [backupId, ''database'', fst c @ ''.json'']) = None \<Longrightarrow>
         map_of (snd (snapshot_steps options e bdir backupId files))
           (bdir @ [backupId, ''database'', fst c @ ''.json'']) = Some (File body)"
proof -
  define bp where "bp = bdir @ [backupId]"
  define f1 where "f1 = snd (mkdir e bp files)"
  define f2 where "f2 = snd (if includeDatabase options \<noteq> Some False
                              then backupDatabase e bp f1 else (Inr (), f1))"
  define f3 where "f3 = snd (if includeUploads options \<noteq> Some False
                              then backupFiles e bp f2 else (Inr (), f2))"
  define f4 where "f4 = snd (if includeLogs options = Some True
                              then backupLogs e bp f3 else (Inr (), f3))"
  define target where "target = bp @ [''database''] @ [fst c @ ''.json'']"
  have new: "map_of files (bp @ x) = None" for x
    using free by (simp add: bp_def)
  have "\<not> is_file files bp" using new [of "[]"] by (simp add: is_file_def)
  then have nf0: "\<not> list_ex (is_file files) (tl (prefixes bp))"
    using root by (simp add: bp_def no_file_snoc)
  have ok1: "fst (mkdir e bp files) = Inr ()"
    using nf0 mk by (simp add: mkdir_ok)
  have e1: "mkdir e bp files = (Inr (), f1)"
    using ok1 by (simp add: f1_def prod_eq_iff)
  have new1: "map_of f1 (bp @ x) = None" if "x \<noteq> []" for x
    unfolding f1_def using that new [of x] by (simp add: mkdir_frame)
  have d1: "map_of f1 q = Some Dir" if "q \<noteq> []" "prefix q bp" for q
    unfolding f1_def using that by (rule mkdir_dirs [OF ok1])
  have g2: "grown (map_of f1 q) (map_of f2 q)" if "\<not> strict_prefix (bp @ [''database'']) q" for q
    unfolding f2_def by (rule snapshot_grows(1) [OF that])
  have g3: "grown (map_of f2 q) (map_of f3 q)" if "\<not> prefix (bp @ [''files'', ''uploads'']) q" for q
    unfolding f3_def by (rule snapshot_grows(2) [OF that])
  have g4: "grown (map_of f3 q) (map_of f4 q)" if "\<not> prefix (bp @ [''logs'']) q" for q
    unfolding f4_def by (rule snapshot_grows(3) [OF that])
  have d2: "map_of f2 q = Some Dir" if "q \<noteq> []" "prefix q bp" for q
    using g2 [OF above_staging(1) [OF that(2)]] d1 [OF that] by (simp add: grown_def)
  have d3: "map_of f3 q = Some Dir" if "q \<noteq> []" "prefix q bp" for q
    using g3 [OF above_staging(2) [OF that(2)]] d2 [OF that] by (simp add: grown_def)
  have blocked: "\<not> list_ex (is_file f) (tl (prefixes (bp @ [x])))"
    if "\<And>q. q \<noteq> [] \<Longrightarrow> prefix q bp \<Longrightarrow> map_of f q = Some Dir" "\<not> is_file f (bp @ [x])" for f x
    using that by (auto simp add: no_file_snoc list_ex_iff in_tl_prefixes is_file_def)
  have n1: "\<not> is_file f1 (bp @ [x])" for x
    using new1 [of "[x]"] by (simp add: is_file_def)
  have b1: "\<not> list_ex (is_file f1) (tl (prefixes (bp @ [''database''])))"
    by (rule blocked [OF d1 n1])
  have e2: "(if includeDatabase options \<noteq> Some False then backupDatabase e bp f1 else (Inr (), f1))
              = (Inr (), f2)"
    using mk b1 by (simp add: f2_def prod_eq_iff backupDatabase_ok)
  have n2: "\<not> is_file f2 (bp @ [''files''])"
    by (rule grown_not_file [OF g2 n1]) (simp_all add: strict_prefix_def)
  have b2: "\<not> list_ex (is_file f2) (tl (prefixes (bp @ [''files''])))"
    by (rule blocked [OF d2 n2])
  have e3: "(if includeUploads options \<noteq> Some False then backupFiles e bp f2 else (Inr (), f2))
              = (Inr (), f3)"
    using mk b2 by (simp add: f3_def prod_eq_iff backupFiles_ok)
  have n2': "\<not> is_file f2 (bp @ [''logs''])"
    by (rule grown_not_file [OF g2 n1]) (simp_all add: strict_prefix_def)
  have n3: "\<not> is_file f3 (bp @ [''logs''])"
    by (rule grown_not_file [OF g3 n2']) (simp_all add: strict_prefix_def)
  have b3: "\<not> list_ex (is_file f3) (tl (prefixes (bp @ [''logs''])))"
    by (rule blocked [OF d3 n3])
  have e4: "(if includeLogs options = Some True then backupLogs e bp f3 else (Inr (), f3))
              = (Inr (), f4)"
    using mk b3 by (simp add: f4_def prod_eq_iff backupLogs_ok)
  have steps: "snapshot_steps options e bdir backupId files = (Inr (), f4)"
    by (simp only: snapshot_steps_def bp_def [symmetric] e1 e2 e3 e4 then_do.simps)
  show "fst (snapshot_steps options e bdir backupId files) = Inr ()"
    by (simp add: steps)
  show "map_of (snd (snapshot_steps options e bdir backupId files))
           (bdir @ [backupId, ''database'', fst c @ ''.json'']) = Some (File body)"
    if opts: "includeDatabase options \<noteq> Some False" and c: "c \<in> set (collections_list e)"
      "stringify e (snd c) = Inr body"
      "fault_writeFile e (bdir @ [backupId, ''database'', fst c @ ''.json'']) = None"
  proof -
    have w: "fault_writeFile e (bp @ [''database''] @ [fst c @ ''.json'']) = None"
      using c(3) by (simp add: bp_def)
    have nd: "map_of f1 (bp @ [''database''] @ [fst c @ ''.json'']) \<noteq> Some Dir"
      using new1 [of "[''database''] @ [fst c @ ''.json'']"] by simp
    have t2: "map_of f2 target = Some (File body)"
      unfolding f2_def target_def
      using backupDatabase_written [OF b1 _ c(1) c(2) w nd] mk opts by simp
    have o: "\<not> prefix (bp @ [''files'', ''uploads'']) target" "\<not> prefix (bp @ [''logs'']) target"
      unfolding target_def by simp_all
    have t3: "map_of f3 target = Some (File body)"
      using g3 [OF o(1)] t2 by (simp add: grown_def)
    have t4: "map_of f4 target = Some (File body)"
      using g4 [OF o(2)] t3 by (simp add: grown_def)
    then show ?thesis by (simp add: steps target_def bp_def)
  qed
qed

text \<open>
  With compression (the default), whatever collections fail to serialize or to be
  written: when the other steps of the run succeed (the directories, on a disk that has
  room for them, the archive, the removal of the staging directory, the size and the
  checksum) the backup completes. The call returns the metadata with status
  \<^verbatim>\<open>completed\<close>, and the archive at its path holds \<^verbatim>\<open>database/<name>.json\<close> with the
  serialized text for every collection that was serialized and written.
\<close>

lemma compressed_run_completes:
  assumes guard: "\<not> isBackupRunning s"
    and opts: "includeDatabase options \<noteq> Some False" "compression options \<noteq> Some False"
    and mk: "\<forall>p. fault_mkdir e p = None"
    and others: "\<forall>p. fault_archive e p = None" "\<forall>p. fault_rm e p = None"
      "\<forall>p. fault_stat e p = None" "\<forall>p. fault_checksum e p = None"
    and root: "\<not> list_ex (is_file (disk s)) (tl (prefixes (backupDir s)))"
    and free: "\<forall>q. prefix (backupDir s @ [id_m (new_metadata e)]) q \<longrightarrow> map_of (disk s) q = None"
    and arch: "\<not> is_dir (disk s) (backupDir s @ [id_m (new_metadata e) @ ''.tar.gz''])"
    and c: "c \<in> set (collections_list e)" "stringify e (snd c) = Inr body"
      "fault_writeFile e (backupDir s @ [id_m (new_metadata e), ''database'', fst c @ ''.json'']) = None"
  shows "\<exists>m s' entries.
           createFullBackup options e s = (Inr m, s') \<and> status m = Completed \<and>
           map_of (disk s') (path_m m) = Some (Archive entries) \<and>
           map_of entries [''database'', fst c @ ''.json''] = Some (File body)"
proof -
  define idn where "idn = id_m (new_metadata e)"
  define bp where "bp = backupDir s @ [idn]"
  define f4 where "f4 = snd (snapshot_steps options e (backupDir s) idn (disk s))"
  define A where "A = Archive (entries_below bp f4)"
  define ap where "ap = backupDir s @ [idn @ ''.tar.gz'']"
  define f5 where "f5 = remove_tree bp (put ap A f4)"
  have free': "\<forall>q. prefix (backupDir s @ [idn]) q \<longrightarrow> map_of (disk s) q = None"
    using free by (simp add: idn_def)
  have ok: "fst (snapshot_steps options e (backupDir s) idn (disk s)) = Inr ()"
    by (rule snapshot_steps_complete(1) [OF mk root free'])
  then have e4: "snapshot_steps options e (backupDir s) idn (disk s) = (Inr (), f4)"
    by (simp add: f4_def prod_eq_iff)
  have v4: "map_of f4 bp = Some Dir"
    unfolding f4_def bp_def by (rule snapshot_steps_dir [OF ok])
  have t4: "map_of f4 (bp @ [''database'', fst c @ ''.json'']) = Some (File body)"
    unfolding f4_def bp_def
    using snapshot_steps_complete(2) [OF mk root free' opts(1) c(1) c(2)] c(3)
    by (simp add: idn_def)
  have ne: "bp \<noteq> ap" by (simp add: bp_def ap_def)
  have np: "\<not> prefix bp ap" by (simp add: bp_def ap_def)
  have e5: "archive_step options e (backupDir s) idn f4 = (Inr ap, f5)"
    using opts others v4 ne
    by (simp add: archive_step_def createArchive_def rm_def map_of_put
        bp_def [symmetric] ap_def [symmetric] A_def [symmetric] f5_def)
  have a5: "map_of f5 ap = Some A"
    using np by (simp add: f5_def map_of_remove_tree map_of_put)
  have e6: "stat e ap f5 = (Inr (stat_size e A), f5)"
    using others a5 by (simp add: stat_def)
  have e7: "calculateChecksum e ap f5 = (Inr (sha256_hex e A), f5)"
    using others a5 by (simp add: calculateChecksum_def A_def)
  have steps: "backup_steps options e (backupDir s) idn (disk s)
                 = (Inr (ap, stat_size e A, sha256_hex e A), f5)"
    by (simp only: backup_steps_def e4 e5 e6 e7 then_do.simps)
  have inside: "map_of (entries_below bp f4) [''database'', fst c @ ''.json''] = Some (File body)"
    using t4 by (simp add: map_of_entries_below)
  show ?thesis
    using guard steps a5 inside
    by (simp add: createFullBackup_def Let_def idn_def [symmetric] A_def)
qed

text \<open>
  As an instance: on the fresh backup root, with the sales collection failing to
  serialize, the compressed backup completes and its archive holds the products.
\<close>

lemma compressed_run_completes_example:
  "stringify sales_circular (sales (db sales_circular)) = Inl (Error ''Converting circular structure to JSON'') \<and>
   (\<exists>m s' entries.
      createFullBackup defaults sales_circular fresh = (Inr m, s') \<and> status m = Completed \<and>
      map_of (disk s') (path_m m) = Some (Archive entries) \<and>
      map_of entries [''database'', ''products.json''] = Some (File ''[]''))"
proof -
  have g: "\<not> isBackupRunning fresh" by code_simp
  have o: "includeDatabase defaults \<noteq> Some False" "compression defaults \<noteq> Some False"
    by (simp_all add: defaults_def)
  have f: "\<forall>p. fault_mkdir sales_circular p = None" "\<forall>p. fault_archive sales_circular p = None"
    "\<forall>p. fault_rm sales_circular p = None" "\<forall>p. fault_stat sales_circular p = None"
    "\<forall>p. fault_checksum sales_circular p = None"
    by (simp_all add: sales_circular_def quiet_def)
  have d: "disk fresh =
             [([''app''], Dir), ([''app'', ''backups''], Dir), ([''app'', ''backups'', ''database''], Dir),
              ([''app'', ''backups'', ''files''], Dir), ([''app'', ''backups'', ''exports''], Dir)]"
    by code_simp
  have b: "backupDir fresh = [''app'', ''backups'']" by code_simp
  have i: "id_m (new_metadata sales_circular) = ''backup_1000''" by code_simp
  have root: "\<not> list_ex (is_file (disk fresh)) (tl (prefixes (backupDir fresh)))" by code_simp
  have free: "\<forall>q. prefix (backupDir fresh @ [id_m (new_metadata sales_circular)]) q \<longrightarrow>
                map_of (disk fresh) q = None"
    unfolding d b i by (auto simp add: prefix_def)
  have arch: "\<not> is_dir (disk fresh) (backupDir fresh @ [id_m (new_metadata sales_circular) @ ''.tar.gz''])"
    by code_simp
  have c: "(''products'', []) \<in> set (collections_list sales_circular)"
    by (simp add: collections_list_def sales_circular_def quiet_def)
  have t: "stringify sales_circular (snd (''products'', [])) = Inr ''[]''"
    by (simp add: sales_circular_def quiet_def)
  have w: "fault_writeFile sales_circular
             (backupDir fresh @ [id_m (new_metadata sales_circular), ''database'',
                fst (''products'', [] :: jsobj list) @ ''.json'']) = None"
    by (simp add: sales_circular_def quiet_def)
  have x: "stringify sales_circular (sales (db sales_circular)) =
             Inl (Error ''Converting circular structure to JSON'')"
    by (simp add: sales_circular_def quiet_def)
  show ?thesis
    using compressed_run_completes [OF g o f root free arch c t w] x by simp
qed

subsection \<open>A run without compression\<close>

text \<open>
  A run without compression never completes: the staging directory is the artifact, and
  the checksum of a directory throws. The run is recorded as failed.
\<close>

lemma uncompressed_run_fails:
  assumes guard: "\<not> isBackupRunning s"
    and unc: "compression options = Some False"
  shows "\<exists>err. fst (createFullBackup options e s) = Inl err \<and>
           backupHistory (snd (createFullBackup options e s)) =
             backupHistory s @
               [(new_metadata e)\<lparr>status := Failed, error := Some (error_message err)\<rparr>]"
proof -
  have steps: "\<exists>err. fst (backup_steps options e (backupDir s) (id_m (new_metadata e)) (disk s)) = Inl err"
    unfolding backup_steps_def
  proof (rule then_do_throws)
    fix u
    assume ok: "fst (snapshot_steps options e (backupDir s) (id_m (new_metadata e)) (disk s)) = Inr u"
    define f4 where "f4 = snd (snapshot_steps options e (backupDir s) (id_m (new_metadata e)) (disk s))"
    have d4: "map_of f4 (backupDir s @ [id_m (new_metadata e)]) = Some Dir"
      unfolding f4_def by (rule snapshot_steps_dir [OF ok])
    show "\<exists>err. fst (then_do (archive_step options e (backupDir s) (id_m (new_metadata e))
                 (snd (snapshot_steps options e (backupDir s) (id_m (new_metadata e)) (disk s))))
                 (\<lambda>finalPath files5.
                    then_do (stat e finalPath files5) (\<lambda>sz files6.
                    then_do (calculateChecksum e finalPath files6) (\<lambda>checksum files7.
                      (Inr (finalPath, sz, checksum), files7))))) = Inl err"
      unfolding f4_def [symmetric]
      using unc d4
      by (auto simp add: archive_step_def stat_def calculateChecksum_def split: option.splits)
  qed
  then obtain err where
    "fst (backup_steps options e (backupDir s) (id_m (new_metadata e)) (disk s)) = Inl err"
    by blast
  then have "fst (createFullBackup options e s) = Inl err \<and>
           backupHistory (snd (createFullBackup options e s)) =
             backupHistory s @
               [(new_metadata e)\<lparr>status := Failed, error := Some (error_message err)\<rparr>]"
    using guard by (auto simp add: createFullBackup_def Let_def split: prod.splits sum.splits)
  then show ?thesis by blast
qed

text \<open>
  C3. The claim fails on the code for a backup made without compression. With the sales
  collection failing to serialize, \<^verbatim>\<open>createFullBackup({compression: false})\<close> skips that
  collection and writes the files of the others into the staging directory, as the claim
  says, but the run does not complete: the staging directory is taken as the artifact,
  its checksum throws \<^verbatim>\<open>EISDIR\<close>, the call throws and the run is recorded as failed. The
  same happens with no collection failing. With compression the same run completes.
\<close>

theorem partial_export_uncompressed:
  "stringify sales_circular (sales (db sales_circular)) =
     Inl (Error ''Converting circular structure to JSON'') \<and>
   fst (createFullBackup uncompressed sales_circular fresh) = Inl (Error ''EISDIR'') \<and>
   map status (backupHistory (snd (createFullBackup uncompressed sales_circular fresh))) = [Failed] \<and>
   map error (backupHistory (snd (createFullBackup uncompressed sales_circular fresh))) =
     [Some ''EISDIR''] \<and>
   map_of (disk (snd (createFullBackup uncompressed sales_circular fresh)))
     [''app'', ''backups'', ''backup_1000'', ''database'', ''products.json''] = Some (File ''[]'') \<and>
   map_of (disk (snd (createFullBackup uncompressed sales_circular fresh)))
     [''app'', ''backups'', ''backup_1000'', ''database'', ''sales.json''] = None \<and>
   map_of (disk (snd (createFullBackup uncompressed sales_circular fresh)))
     [''app'', ''backups'', ''backup_1000''] = Some Dir \<and>
   fst (createFullBackup uncompressed quiet fresh) = Inl (Error ''EISDIR'') \<and>
   map status (backupHistory (snd (createFullBackup defaults sales_circular fresh))) = [Completed]"
  by code_simp

subsection \<open>Persisting the history\<close>




subsection \<open>The export pipeline\<close>

lemma keys_set_prop: "fst ` set (set_prop obj key v) = insert key (fst ` set obj)"
  by (induction obj key v rule: set_prop.induct) auto

lemma keys_fold_set_prop:
  "fst ` set (fold (\<lambda>field filtered. set_prop filtered field (get_prop item field)) flds acc) =
     set flds \<union> fst ` set acc"
  by (induction flds arbitrary: acc) (simp_all add: keys_set_prop)

lemma project_keys: "fst ` set (project flds item) = set flds"
  by (simp add: project_def keys_fold_set_prop)

lemma getProductsData_pipeline:
  "getProductsData prods options =
     (case fields_o options of None \<Rightarrow> id | Some flds \<Rightarrow> map (project flds))
       ((case filters options of None \<Rightarrow> id | Some flt \<Rightarrow> filter (matches_filters flt)) prods)"
  by (simp add: getProductsData_def Let_def split: option.splits)

lemma getProductsData_projected:
  assumes "fields_o options = Some flds" "r \<in> set (getProductsData prods options)"
  shows "fst ` set r = set flds"
proof -
  from assms obtain x where "r = project flds x"
    by (auto simp add: getProductsData_pipeline split: option.splits)
  then show ?thesis by (simp add: project_keys)
qed

text \<open>
  C6. The claim fails on the code: \<^verbatim>\<open>getSalesData\<close> never projects and
  \<^verbatim>\<open>getInventoryData\<close> reads none of the options, while \<^verbatim>\<open>getProductsData\<close> filters and
  projects. With \<^verbatim>\<open>fields = ['id']\<close> a sale comes out with all its keys, an inventory row
  with all nine columns (and a filter that matches no product keeps the row), a product
  with the key \<^verbatim>\<open>id\<close> alone.
\<close>

theorem projection_ignored:
  "collection_data one_sale (\<lambda>_. None) (only_id ''sales''\<lparr>filters := None\<rparr>) =
     Inr ([[(''id'', JNum 1), (''total'', JNum 50), (''userName'', JStr ''Ann'')]], ''sales'') \<and>
   collection_data one_sale (\<lambda>_. None) (only_id ''inventory'') =
     Inr ([[(''id'', JNum 1), (''name'', JStr ''Coffee''), (''category'', JUndefined),
            (''currentStock'', JNum 5), (''barcode'', JUndefined), (''cost'', JUndefined),
            (''price'', JUndefined), (''supplierId'', JUndefined), (''minStockLevel'', JUndefined)]],
          ''inventory'') \<and>
   collection_data one_sale (\<lambda>_. None) (only_id ''products''\<lparr>filters := None\<rparr>) =
     Inr ([[(''id'', JNum 1)]], ''products'')"
  by code_simp

subsection \<open>CSV\<close>

text \<open>
  C9, as amended. For the two products of the scenario the export to CSV writes
  \<^verbatim>\<open>products.csv\<close> in a fresh export directory with the header row and the two data rows
  in storage order, the rows joined by newlines: no newline follows the last row.
\<close>

theorem csv_scenario:
  "fst (exportData coffee_tea (\<lambda>_. None) products_csv fresh) =
     Inr [''app'', ''backups'', ''exports'', ''export_products_1000'', ''products.csv''] \<and>
   map_of (disk (snd (exportData coffee_tea (\<lambda>_. None) products_csv fresh)))
      [''app'', ''backups'', ''exports'', ''export_products_1000'', ''products.csv'']
    = Some (File ''id,name\<newline>1,Coffee\<newline>2,Tea'')"
  by code_simp

text \<open>The content the claim states, with a newline after the last row, is not what is written.\<close>

theorem csv_scenario_counterexample:
  "map_of (disk (snd (exportData coffee_tea (\<lambda>_. None) products_csv fresh)))
      [''app'', ''backups'', ''exports'', ''export_products_1000'', ''products.csv'']
    \<noteq> Some (File ''id,name\<newline>1,Coffee\<newline>2,Tea\<newline>'')"
  by code_simp

subsection \<open>Resolving a download\<close>




text \<open>The listing of a directory is sorted and names every entry once.\<close>

lemma readdir_sorted:
  "fst (readdir e files p calls) = Inr dirs \<Longrightarrow> sorted dirs \<and> distinct dirs"
  by (auto simp add: readdir_def children_def split: option.splits node.splits)











subsection \<open>Sorting records that carry dates\<close>

lemma compare_asc_dates:
  "is_Date (timestamp a) \<Longrightarrow> is_Date (timestamp b) \<Longrightarrow>
   compare_asc a b = Inr (instant (timestamp a) - instant (timestamp b))"
  by (cases "timestamp a"; cases "timestamp b") (simp_all add: compare_asc_def)

lemma insert_by_asc_dates:
  "is_Date (timestamp x) \<Longrightarrow> \<forall>y\<in>set ys. is_Date (timestamp y) \<Longrightarrow>
   insert_by compare_asc x ys = Inr (insort_key (\<lambda>b. instant (timestamp b)) x ys)"
  by (induction ys) (simp_all add: compare_asc_dates)

lemma sort_by_asc_dates:
  "\<forall>b\<in>set bs. is_Date (timestamp b) \<Longrightarrow>
   sort_by compare_asc bs = Inr (sort_key (\<lambda>b. instant (timestamp b)) bs)"
  by (induction bs) (simp_all add: insert_by_asc_dates)

lemma insert_by_desc_dates:
  "is_Date (timestamp x) \<Longrightarrow> \<forall>y\<in>set ys. is_Date (timestamp y) \<Longrightarrow>
   insert_by compare_desc x ys = Inr (insort_key (\<lambda>b. - instant (timestamp b)) x ys)"
  by (induction ys) (simp_all add: compare_desc_def compare_asc_dates)

lemma sort_by_desc_dates:
  "\<forall>b\<in>set bs. is_Date (timestamp b) \<Longrightarrow>
   sort_by compare_desc bs = Inr (sort_key (\<lambda>b. - instant (timestamp b)) bs)"
  by (induction bs) (simp_all add: insert_by_desc_dates)

subsection \<open>Retention cleanup\<close>

lemma delete_backups_result:
  "delete_backups e bs s =
     (Inr (),
      s\<lparr>disk := fold (\<lambda>b. remove_tree (path_m b)) (filter (\<lambda>b. fault_rm e (path_m b) = None) bs) (disk s),
        backupHistory :=
          filter (\<lambda>x. id_m x \<notin> id_m ` set (filter (\<lambda>b. fault_rm e (path_m b) = None) bs))
            (backupHistory s)\<rparr>)"
proof (induction bs arbitrary: s)
  case Nil
  then show ?case by simp
next
  case (Cons b bs)
  show ?case
  proof (cases "fault_rm e (path_m b)")
    case None
    then have d: "catch_log (delete_backup e b s) =
        (Inr (), s\<lparr>disk := remove_tree (path_m b) (disk s),
                   backupHistory := filter (\<lambda>x. id_m x \<noteq> id_m b) (backupHistory s)\<rparr>)"
      by (simp add: delete_backup_def rm_force_def)
    show ?thesis
      using None by (simp add: d Cons.IH conj_commute)
  next
    case (Some err)
    then have d: "catch_log (delete_backup e b s) = (Inr (), s)"
      by (simp add: delete_backup_def rm_force_def)
    show ?thesis
      using Some by (simp add: d Cons.IH)
  qed
qed

lemma map_of_fold_remove_tree:
  "map_of (fold (\<lambda>b. remove_tree (path_m b)) bs files) q =
     (if \<exists>b\<in>set bs. prefix (path_m b) q then None else map_of files q)"
  by (induction bs arbitrary: files) (auto simp add: map_of_remove_tree)

lemma length_filter_mono:
  "(\<And>x. x \<in> set xs \<Longrightarrow> P x \<Longrightarrow> Q x) \<Longrightarrow> length (filter P xs) \<le> length (filter Q xs)"
  by (induction xs) auto

lemma length_filter_insort_key:
  "length (filter P (insort_key f x xs)) = length (filter P (x # xs))"
  by (induction xs) auto

lemma length_filter_sort_key: "length (filter P (sort_key f xs)) = length (filter P xs)"
  by (induction xs) (simp_all add: length_filter_insort_key)

lemma retention_bound:
  assumes "maxBackups s < length (oldest_first s)"
  shows "length (filter (\<lambda>b. status b = Completed)
            (filter (\<lambda>x. id_m x \<notin> id_m ` set (deleted e s)) (backupHistory s)))
         \<le> maxBackups s + length (undeleted e s)"
proof -
  let ?P = "\<lambda>x. id_m x \<notin> id_m ` set (deleted e s)"
  let ?k = "length (oldest_first s) - maxBackups s"
  have "filter (\<lambda>b. status b = Completed) (filter ?P (backupHistory s)) =
        filter ?P (filter (\<lambda>b. status b = Completed) (backupHistory s))"
    by (simp add: conj_commute)
  then have "length (filter (\<lambda>b. status b = Completed) (filter ?P (backupHistory s))) =
        length (filter ?P (oldest_first s))"
    by (simp only: oldest_first_def length_filter_sort_key)
  also have "\<dots> = length (filter ?P (take ?k (oldest_first s))) + length (filter ?P (drop ?k (oldest_first s)))"
    by (metis append_take_drop_id filter_append length_append)
  also have "\<dots> \<le> length (undeleted e s) + maxBackups s"
  proof (rule add_mono)
    show "length (filter ?P (take ?k (oldest_first s))) \<le> length (undeleted e s)"
      unfolding undeleted_def to_delete_def
      by (rule length_filter_mono) (auto simp add: deleted_def to_delete_def)
    have "length (filter ?P (drop ?k (oldest_first s))) \<le> length (drop ?k (oldest_first s))"
      by (rule length_filter_le)
    also have "\<dots> = maxBackups s" using assms by simp
    finally show "length (filter ?P (drop ?k (oldest_first s))) \<le> maxBackups s" .
  qed
  finally show ?thesis by simp
qed


text \<open>The history document after a save: written from the history, left alone, or torn.\<close>

lemma saveBackupHistory_file:
  "historyFile (saveBackupHistory e s) = Some (map json_roundtrip (backupHistory s)) \<or>
   historyFile (saveBackupHistory e s) = historyFile s \<or>
   historyFile (saveBackupHistory e s) = None"
  by (simp add: saveBackupHistory_def split: option.splits)

lemma cleanup_body_dates:
  assumes "\<forall>b\<in>set (backupHistory s). is_Date (timestamp b)"
  shows "cleanup_body e s =
     (if length (oldest_first s) \<le> maxBackups s then (Inr (), s)
      else (Inr (), saveBackupHistory e
        (s\<lparr>disk := fold (\<lambda>b. remove_tree (path_m b)) (deleted e s) (disk s),
           backupHistory := filter (\<lambda>x. id_m x \<notin> id_m ` set (deleted e s)) (backupHistory s)\<rparr>)))"
proof -
  have "sort_by compare_asc (filter (\<lambda>b. status b = Completed) (backupHistory s)) =
          Inr (oldest_first s)"
    unfolding oldest_first_def using assms by (intro sort_by_asc_dates) simp
  then show ?thesis
    by (simp add: cleanup_body_def delete_backups_result deleted_def to_delete_def)
qed

text \<open>
  C4, as amended. For a history whose timestamps are \<^verbatim>\<open>Date\<close> objects:
  \<^verbatim>\<open>cleanupOldBackups\<close> never throws; it looks at the completed records only, oldest
  first; when there are at most \<^verbatim>\<open>maxBackups\<close> of them the state is unchanged; otherwise
  it tries to remove the artifacts of exactly the \<open>count - maxBackups\<close> oldest; every
  record with the id of an artifact that was removed leaves the history and nothing is
  left on the disk at that artifact's path; a record whose artifact could not be removed
  stays (unless it shares its id with a removed one); and the completed records left are
  at most \<^verbatim>\<open>maxBackups\<close> plus the number of artifacts that could not be removed.
\<close>

theorem cleanupOldBackups_retention:
  assumes "\<forall>b\<in>set (backupHistory s). is_Date (timestamp b)"
  shows "fst (cleanupOldBackups e s) = Inr () \<and>
    sorted (map (\<lambda>b. instant (timestamp b)) (oldest_first s)) \<and>
    (length (oldest_first s) \<le> maxBackups s \<longrightarrow> snd (cleanupOldBackups e s) = s) \<and>
    (maxBackups s < length (oldest_first s) \<longrightarrow>
       length (to_delete s) = length (oldest_first s) - maxBackups s \<and>
       backupHistory (snd (cleanupOldBackups e s)) =
         filter (\<lambda>x. id_m x \<notin> id_m ` set (deleted e s)) (backupHistory s) \<and>
       disk (snd (cleanupOldBackups e s)) =
         fold (\<lambda>b. remove_tree (path_m b)) (deleted e s) (disk s) \<and>
       (\<forall>b\<in>set (deleted e s). map_of (disk (snd (cleanupOldBackups e s))) (path_m b) = None) \<and>
       (\<forall>b\<in>set (undeleted e s). id_m b \<notin> id_m ` set (deleted e s) \<longrightarrow>
            b \<in> set (backupHistory (snd (cleanupOldBackups e s)))) \<and>
       length (filter (\<lambda>b. status b = Completed) (backupHistory (snd (cleanupOldBackups e s))))
         \<le> maxBackups s + length (undeleted e s))"
proof -
  note body = cleanup_body_dates [OF assms, of e]
  have 1: "fst (cleanupOldBackups e s) = Inr ()"
    by (simp add: cleanupOldBackups_def)
  have 2: "sorted (map (\<lambda>b. instant (timestamp b)) (oldest_first s))"
    by (simp add: oldest_first_def)
  have 3: "snd (cleanupOldBackups e s) = s" if "length (oldest_first s) \<le> maxBackups s"
    using that by (simp add: cleanupOldBackups_def body)
  have 4: "backupHistory (snd (cleanupOldBackups e s)) =
             filter (\<lambda>x. id_m x \<notin> id_m ` set (deleted e s)) (backupHistory s)"
    and 5: "disk (snd (cleanupOldBackups e s)) =
             fold (\<lambda>b. remove_tree (path_m b)) (deleted e s) (disk s)"
    if "maxBackups s < length (oldest_first s)"
    using that by (simp_all add: cleanupOldBackups_def body)
  have 6: "\<forall>b\<in>set (deleted e s). map_of (disk (snd (cleanupOldBackups e s))) (path_m b) = None"
    if "maxBackups s < length (oldest_first s)"
    using 5 [OF that] by (auto simp add: map_of_fold_remove_tree)
  have sub: "set (undeleted e s) \<subseteq> set (backupHistory s)"
  proof -
    have "set (undeleted e s) \<subseteq> set (oldest_first s)"
      by (auto simp add: undeleted_def to_delete_def dest: in_set_takeD)
    then show ?thesis by (auto simp add: oldest_first_def)
  qed
  have 7: "\<forall>b\<in>set (undeleted e s). id_m b \<notin> id_m ` set (deleted e s) \<longrightarrow>
            b \<in> set (backupHistory (snd (cleanupOldBackups e s)))"
    if "maxBackups s < length (oldest_first s)"
    using 4 [OF that] sub by auto
  have 8: "length (filter (\<lambda>b. status b = Completed) (backupHistory (snd (cleanupOldBackups e s))))
         \<le> maxBackups s + length (undeleted e s)"
    if "maxBackups s < length (oldest_first s)"
    using 4 [OF that] retention_bound [OF that, of e] by simp
  have 9: "length (to_delete s) = length (oldest_first s) - maxBackups s"
    by (simp add: to_delete_def)
  show ?thesis using 1 2 3 4 5 6 7 8 9 by blast
qed


theorem cleanupOldBackups_retention_witness:
  "list_all (\<lambda>b. is_Date (timestamp b)) (backupHistory (with_backups 32)) \<and>
   maxBackups (with_backups 32) < length (oldest_first (with_backups 32)) \<and>
   map id_m (to_delete (with_backups 32)) = [''backup_1'', ''backup_2''] \<and>
   map id_m (deleted rm_first_denied (with_backups 32)) = [''backup_2''] \<and>
   map id_m (undeleted rm_first_denied (with_backups 32)) = [''backup_1''] \<and>
   fst (cleanupOldBackups rm_first_denied (with_backups 32)) = Inr () \<and>
   backupHistory (snd (cleanupOldBackups rm_first_denied (with_backups 32))) =
     filter (\<lambda>x. id_m x \<notin> id_m ` set (deleted rm_first_denied (with_backups 32)))
       (backupHistory (with_backups 32)) \<and>
   length (filter (\<lambda>b. status b = Completed)
             (backupHistory (snd (cleanupOldBackups rm_first_denied (with_backups 32)))))
     \<le> maxBackups (with_backups 32) + length (undeleted rm_first_denied (with_backups 32))"
proof -
  have d: "list_all (\<lambda>b. is_Date (timestamp b)) (backupHistory (with_backups 32))"
    by code_simp
  have m: "maxBackups (with_backups 32) < length (oldest_first (with_backups 32))"
    by code_simp
  have t: "map id_m (to_delete (with_backups 32)) = [''backup_1'', ''backup_2'']"
    "map id_m (deleted rm_first_denied (with_backups 32)) = [''backup_2'']"
    "map id_m (undeleted rm_first_denied (with_backups 32)) = [''backup_1'']"
    by code_simp+
  from d have d': "\<forall>b\<in>set (backupHistory (with_backups 32)). is_Date (timestamp b)"
    by (simp only: list_all_iff)
  from cleanupOldBackups_retention [OF d', of rm_first_denied] m d t
  show ?thesis by blast
qed


text \<open>
  The bound of the claim as stated fails when a removal fails: of 31 completed backups
  with \<^verbatim>\<open>maxBackups = 30\<close>, none of which can be removed, all 31 stay in the history
  with their artifacts on the disk.
\<close>

theorem cleanup_bound_counterexample:
  "map status (backupHistory (with_backups 31)) = replicate 31 Completed \<and>
   maxBackups (with_backups 31) = 30 \<and>
   fst (cleanupOldBackups rm_denied (with_backups 31)) = Inr () \<and>
   length (completed_on_disk (snd (cleanupOldBackups rm_denied (with_backups 31)))) = 31"
  by code_simp

subsection \<open>Listing the history\<close>

lemma insert_by_set: "insert_by cmp x ys = Inr zs \<Longrightarrow> set zs = insert x (set ys)"
proof (induction ys arbitrary: zs)
  case Nil
  then show ?case by auto
next
  case (Cons y ys)
  show ?case
  proof (cases "cmp x y")
    case (Inl err)
    with Cons.prems show ?thesis by simp
  next
    case (Inr c)
    show ?thesis
    proof (cases "c \<le> 0")
      case True
      with Inr Cons.prems show ?thesis by auto
    next
      case False
      with Inr Cons.prems obtain r where r: "insert_by cmp x ys = Inr r" "zs = y # r"
        by (cases "insert_by cmp x ys") auto
      from Cons.IH [OF r(1)] r(2) show ?thesis by auto
    qed
  qed
qed

lemma sort_by_set: "sort_by cmp xs = Inr ys \<Longrightarrow> set ys = set xs"
proof (induction xs arbitrary: ys)
  case Nil
  then show ?case by simp
next
  case (Cons x xs)
  from Cons.prems obtain r where r: "sort_by cmp xs = Inr r" "insert_by cmp x r = Inr ys"
    by (cases "sort_by cmp xs") auto
  from insert_by_set [OF r(2)] Cons.IH [OF r(1)] show ?case by simp
qed

text \<open>
  A history of records that carry \<^verbatim>\<open>Date\<close> objects is listed newest first, and a backup
  only appends to it.
\<close>

lemma getBackupHistory_newest_first:
  assumes "\<forall>b\<in>set (backupHistory s). is_Date (timestamp b)"
  shows "\<exists>bs. getBackupHistory s = Inr bs \<and> set bs = set (backupHistory s) \<and>
           length bs = length (backupHistory s) \<and>
           sorted_wrt (\<lambda>a b. instant (timestamp b) \<le> instant (timestamp a)) bs"
proof -
  let ?bs = "sort_key (\<lambda>b. - instant (timestamp b)) (backupHistory s)"
  have g: "getBackupHistory s = Inr ?bs"
    using assms by (simp add: getBackupHistory_def sort_by_desc_dates)
  have "sorted (map (\<lambda>b. - instant (timestamp b)) ?bs)" by simp
  then have "sorted_wrt (\<lambda>a b. instant (timestamp b) \<le> instant (timestamp a)) ?bs"
    by (simp only: sorted_map neg_le_iff_le)
  with g show ?thesis by simp
qed

lemma createFullBackup_appends:
  "\<not> isBackupRunning s \<Longrightarrow>
   \<exists>m. backupHistory (snd (createFullBackup options e s)) = backupHistory s @ [m] \<and>
       id_m m = id_m (new_metadata e) \<and> timestamp m = DateObj (new_date e)"
  by (auto simp add: createFullBackup_def Let_def new_metadata_def split: prod.splits sum.splits)

lemma reachable_two_backups: "reachable two_backups"
  unfolding two_backups_def fresh_def by (intro reachable.intros)

lemma reachable_after_restart: "reachable after_restart"
  unfolding after_restart_def using reachable_two_backups by (rule reachable.restart)

lemma two_backups_file:
  "historyFile two_backups =
     Some [\<lparr>id_m = ''backup_1000'', timestamp = DateString 1000, type_m = TFull, size_m = 512,
            path_m = [''app'', ''backups'', ''backup_1000.tar.gz''], checksum = ''e3b0'',
            collections = None, status = Completed, error = None\<rparr>,
           \<lparr>id_m = ''backup_2000'', timestamp = DateString 2000, type_m = TFull, size_m = 512,
            path_m = [''app'', ''backups'', ''backup_2000.tar.gz''], checksum = ''e3b0'',
            collections = None, status = Completed, error = None\<rparr>]"
  by code_simp

lemma two_backups_sorted:
  "map_sum id (map id_m) (getBackupHistory two_backups) = Inr [''backup_2000'', ''backup_1000'']"
  by code_simp

lemma compare_desc_string:
  "\<not> is_Date (timestamp a) \<or> \<not> is_Date (timestamp b) \<Longrightarrow> \<exists>err. compare_desc a b = Inl err"
  by (cases "timestamp a"; cases "timestamp b") (auto simp add: compare_desc_def compare_asc_def)

lemma insert_by_throws:
  "\<exists>err. cmp x y = Inl err \<Longrightarrow> \<exists>err. insert_by cmp x (y # ys) = Inl err"
  by auto

lemma sort_by_dates_or_short:
  "sort_by compare_desc bs = Inr r \<Longrightarrow> length bs < 2 \<or> (\<forall>b\<in>set bs. is_Date (timestamp b))"
proof (induction bs arbitrary: r)
  case Nil
  then show ?case by simp
next
  case (Cons x xs)
  from Cons.prems obtain r' where r': "sort_by compare_desc xs = Inr r'"
    and ins: "insert_by compare_desc x r' = Inr r"
    by (cases "sort_by compare_desc xs") auto
  show ?case
  proof (cases r')
    case Nil
    then have "xs = []" using sort_by_set [OF r'] by simp
    then show ?thesis by simp
  next
    case (Cons y ys)
    have "y \<in> set xs" using sort_by_set [OF r'] Cons by auto
    have ok: "is_Date (timestamp x) \<and> is_Date (timestamp y)"
    proof (rule ccontr)
      assume "\<not> (is_Date (timestamp x) \<and> is_Date (timestamp y))"
      then have "\<exists>err. compare_desc x y = Inl err" by (intro compare_desc_string) auto
      then have "\<exists>err. insert_by compare_desc x (y # ys) = Inl err" by (rule insert_by_throws)
      with ins Cons show False by simp
    qed
    from Cons.IH [OF r'] have "length xs < 2 \<or> (\<forall>b\<in>set xs. is_Date (timestamp b))" .
    then have "\<forall>b\<in>set xs. is_Date (timestamp b)"
    proof
      assume "length xs < 2"
      with \<open>y \<in> set xs\<close> have "xs = [y]"
        by (cases xs; cases "tl xs") auto
      then show ?thesis using ok by simp
    qed simp
    with ok show ?thesis by simp
  qed
qed


lemma sort_by_strings_throws:
  assumes "2 \<le> length bs" "\<exists>b\<in>set bs. \<not> is_Date (timestamp b)"
  shows "\<exists>err. sort_by compare_desc bs = Inl err"
proof (cases "sort_by compare_desc bs")
  case (Inl err)
  then show ?thesis by blast
next
  case (Inr r)
  from sort_by_dates_or_short [OF Inr] assms show ?thesis by auto
qed

lemma json_roundtrip_string [simp]: "\<not> is_Date (timestamp (json_roundtrip b))"
  by (cases "timestamp b") (simp_all add: json_roundtrip_def)

text \<open>
  Whatever the history was, once it has two records or more and has been written to
  the document and read back by a new process, listing it throws.
\<close>

lemma getBackupHistory_after_restart_throws:
  assumes "2 \<le> length h" "fault_readFile e (cwd e @ [''backups'', ''backup-history.json'']) = None"
  shows "\<exists>err. getBackupHistory (new_BackupService e files (Some (map json_roundtrip h))) = Inl err"
proof -
  have "backupHistory (new_BackupService e files (Some (map json_roundtrip h))) = map json_roundtrip h"
    using assms(2)
    by (simp add: new_BackupService_def loadBackupHistory_def initializeBackupDirectory_def Let_def)
  moreover have "\<exists>b\<in>set (map json_roundtrip h). \<not> is_Date (timestamp b)"
    using assms(1) by (cases h) auto
  ultimately show ?thesis
    using assms(1) by (simp add: getBackupHistory_def sort_by_strings_throws)
qed

text \<open>
  C8. The claim fails on the code once the process has been started again: the history
  is read back from \<^verbatim>\<open>backup-history.json\<close> with \<^verbatim>\<open>JSON.parse\<close>, the timestamps of its
  records are strings, and the comparator of \<^verbatim>\<open>getBackupHistory\<close> calls \<^verbatim>\<open>getTime()\<close> on
  them. After two backups and a restart the history holds the two records, and listing it
  throws a \<^verbatim>\<open>TypeError\<close> instead of returning them newest first.
\<close>

theorem history_after_restart:
  "reachable after_restart \<and>
   map id_m (backupHistory after_restart) = [''backup_1000'', ''backup_2000''] \<and>
   map timestamp (backupHistory after_restart) = [DateString 1000, DateString 2000] \<and>
   getBackupHistory after_restart = Inl (Error ''timestamp.getTime is not a function'')"
proof -
  have "fault_readFile quiet (cwd quiet @ [''backups'', ''backup-history.json'']) = None"
    by (simp add: quiet_def)
  then have h: "backupHistory after_restart = the (historyFile two_backups)"
    by (simp add: after_restart_def new_BackupService_def loadBackupHistory_def
        initializeBackupDirectory_def Let_def two_backups_file)
  show ?thesis
    using reachable_after_restart
    by (simp add: h two_backups_file getBackupHistory_def compare_desc_def compare_asc_def)
qed

text \<open>The same defect stops the cleanup: its sort throws, its outer \<^verbatim>\<open>catch\<close> logs, nothing is removed.\<close>

lemma cleanup_after_restart_removes_nothing:
  "map timestamp (take 2 (backupHistory reloaded)) = [DateString 1, DateString 2] \<and>
   length (backupHistory (snd (cleanupOldBackups quiet reloaded))) = 32"
  by code_simp

subsection \<open>No pending record in the history\<close>

lemma status_json_roundtrip [simp]: "status (json_roundtrip b) = status b"
  by (simp add: json_roundtrip_def)

lemma terminal_save:
  "list_all (\<lambda>b. status b \<noteq> Pending) (backupHistory s) \<Longrightarrow>
   (case historyFile s of None \<Rightarrow> True | Some doc \<Rightarrow> list_all (\<lambda>b. status b \<noteq> Pending) doc) \<Longrightarrow>
   terminal_history (saveBackupHistory e s)"
  by (auto simp add: terminal_history_def saveBackupHistory_def list_all_iff split: option.splits)

lemma terminal_createFullBackup:
  assumes "terminal_history s"
  shows "terminal_history (snd (createFullBackup options e s))"
proof (cases "isBackupRunning s")
  case True
  then show ?thesis using assms by (simp add: createFullBackup_def)
next
  case False
  obtain r files where steps:
    "backup_steps options e (backupDir s) (id_m (new_metadata e)) (disk s) = (r, files)"
    by (cases "backup_steps options e (backupDir s) (id_m (new_metadata e)) (disk s)")
  show ?thesis
  proof (cases r)
    case (Inl err)
    have "terminal_history (saveBackupHistory e
            (s\<lparr>isBackupRunning := True, disk := files,
               backupHistory := backupHistory s @
                 [(new_metadata e)\<lparr>status := Failed, error := Some (error_message err)\<rparr>]\<rparr>))"
      using assms by (intro terminal_save) (simp_all add: terminal_history_def)
    then show ?thesis
      using False steps Inl
      by (simp add: createFullBackup_def Let_def terminal_history_def)
  next
    case (Inr res)
    obtain finalPath sz digest where res: "res = (finalPath, sz, digest)" by (cases res)
    have "terminal_history (saveBackupHistory e
            (s\<lparr>isBackupRunning := True, disk := files,
               backupHistory := backupHistory s @
                 [(new_metadata e)\<lparr>path_m := finalPath, size_m := sz, checksum := digest,
                    status := Completed\<rparr>]\<rparr>))"
      using assms by (intro terminal_save) (simp_all add: terminal_history_def)
    then show ?thesis
      using False steps Inr res
      by (simp add: createFullBackup_def Let_def terminal_history_def)
  qed
qed

lemma cleanup_history_filtered:
  "\<exists>P. backupHistory (snd (cleanupOldBackups e s)) = filter P (backupHistory s)"
proof (cases "sort_by compare_asc (filter (\<lambda>b. status b = Completed) (backupHistory s))")
  case (Inl err)
  then have "snd (cleanupOldBackups e s) = s"
    by (simp add: cleanupOldBackups_def cleanup_body_def)
  then have "backupHistory (snd (cleanupOldBackups e s)) = filter (\<lambda>_. True) (backupHistory s)"
    by simp
  then show ?thesis by blast
next
  case (Inr sorted)
  show ?thesis
  proof (cases "length sorted \<le> maxBackups s")
    case True
    then have "snd (cleanupOldBackups e s) = s"
      using Inr by (simp add: cleanupOldBackups_def cleanup_body_def)
    then have "backupHistory (snd (cleanupOldBackups e s)) = filter (\<lambda>_. True) (backupHistory s)"
      by simp
    then show ?thesis by blast
  next
    case False
    then show ?thesis
      using Inr by (simp add: cleanupOldBackups_def cleanup_body_def delete_backups_result) blast
  qed
qed

lemma cleanup_file:
  "historyFile (snd (cleanupOldBackups e s)) = historyFile s \<or>
   historyFile (snd (cleanupOldBackups e s)) = None \<or>
   historyFile (snd (cleanupOldBackups e s)) =
     Some (map json_roundtrip (backupHistory (snd (cleanupOldBackups e s))))"
  by (cases "sort_by compare_asc (filter (\<lambda>b. status b = Completed) (backupHistory s))")
     (auto simp add: cleanupOldBackups_def cleanup_body_def delete_backups_result
        saveBackupHistory_def split: option.splits)

lemma terminal_cleanup:
  assumes "terminal_history s"
  shows "terminal_history (snd (cleanupOldBackups e s))"
proof -
  obtain P where P: "backupHistory (snd (cleanupOldBackups e s)) = filter P (backupHistory s)"
    using cleanup_history_filtered by blast
  have h: "list_all (\<lambda>b. status b \<noteq> Pending) (backupHistory (snd (cleanupOldBackups e s)))"
    using assms P by (auto simp add: terminal_history_def list_all_iff)
  show ?thesis
    using cleanup_file [of e s] h assms
    by (auto simp add: terminal_history_def list_all_iff split: option.splits)
qed

lemma terminal_export:
  "terminal_history s \<Longrightarrow> terminal_history (snd (exportData e new_Date xoptions s))"
  by (simp add: exportData_def Let_def terminal_history_def)

lemma terminal_new:
  "(case doc of None \<Rightarrow> True | Some d \<Rightarrow> list_all (\<lambda>b. status b \<noteq> Pending) d) \<Longrightarrow>
   terminal_history (new_BackupService e files doc)"
  by (auto simp add: new_BackupService_def loadBackupHistory_def initializeBackupDirectory_def
      Let_def terminal_history_def split: option.splits)

lemma reachable_terminal: "reachable s \<Longrightarrow> terminal_history s"
proof (induction rule: reachable.induct)
  case (start e files)
  show ?case by (rule terminal_new) simp
next
  case (backup s options e)
  then show ?case by (simp add: terminal_createFullBackup)
next
  case (stall s options e s')
  from stalled_backup_holds_guard [OF stall.hyps(2), of defaults quiet] stall.IH
  show ?case by (simp add: terminal_history_def)
next
  case (cleanup s e)
  then show ?case by (simp add: terminal_cleanup)
next
  case (export s e new_Date xoptions)
  then show ?case by (simp add: terminal_export)
next
  case (restart s e)
  then show ?case by (intro terminal_new) (simp add: terminal_history_def)
qed

lemma not_pending: "status b \<noteq> Pending \<longleftrightarrow> status b = Completed \<or> status b = Failed"
  by (cases "status b") auto

text \<open>
  C10. The metadata of a run starts as \<^verbatim>\<open>pending\<close>; in every state the service can
  reach, every record of the history in memory, of the history document, and of what
  \<^verbatim>\<open>getBackupHistory\<close> returns is \<^verbatim>\<open>completed\<close> or \<^verbatim>\<open>failed\<close>.
\<close>

theorem history_never_pending:
  assumes "reachable s"
  shows "status (new_metadata e) = Pending \<and>
         (\<forall>b\<in>set (backupHistory s). status b = Completed \<or> status b = Failed) \<and>
         (\<forall>doc. historyFile s = Some doc \<longrightarrow>
            (\<forall>b\<in>set doc. status b = Completed \<or> status b = Failed)) \<and>
         (\<forall>bs. getBackupHistory s = Inr bs \<longrightarrow>
            (\<forall>b\<in>set bs. status b = Completed \<or> status b = Failed))"
proof -
  have t: "terminal_history s" using assms by (rule reachable_terminal)
  have 1: "status (new_metadata e) = Pending" by (simp add: new_metadata_def)
  have 2: "\<forall>b\<in>set (backupHistory s). status b = Completed \<or> status b = Failed"
    using t by (simp add: terminal_history_def list_all_iff not_pending)
  have 3: "\<forall>doc. historyFile s = Some doc \<longrightarrow>
            (\<forall>b\<in>set doc. status b = Completed \<or> status b = Failed)"
    using t by (auto simp add: terminal_history_def list_all_iff not_pending)
  have 4: "\<forall>bs. getBackupHistory s = Inr bs \<longrightarrow>
            (\<forall>b\<in>set bs. status b = Completed \<or> status b = Failed)"
    using 2 by (auto simp add: getBackupHistory_def dest: sort_by_set)
  show ?thesis using 1 2 3 4 by blast
qed

lemma reachable_one_backup: "reachable one_backup"
  unfolding one_backup_def fresh_def by (intro reachable.intros)

theorem history_never_pending_witness:
  "reachable one_backup \<and>
   map status (backupHistory one_backup) = [Completed] \<and>
   list_all (\<lambda>b. status b = Completed \<or> status b = Failed) (backupHistory one_backup)"
proof -
  have r: "reachable one_backup" by (rule reachable_one_backup)
  have m: "map status (backupHistory one_backup) = [Completed]" by code_simp
  from history_never_pending [OF r, of quiet]
  have "\<forall>b\<in>set (backupHistory one_backup). status b = Completed \<or> status b = Failed"
    by blast
  then have "list_all (\<lambda>b. status b = Completed \<or> status b = Failed) (backupHistory one_backup)"
    by (simp only: list_all_iff)
  with r m show ?thesis by blast
qed

end
